theory Spec2Isabelle
  imports Main
begin

section \<open>JavaScript strings\<close>

text \<open>
  A JavaScript string is a sequence of UTF-16 code units, so a string is a list of
  code-unit values and \<open>length\<close> is the \<^verbatim>\<open>.length\<close> of the source.
  ASCII literals are written \<open>js ''...''\<close>; the backslash is code unit 92.
\<close>

type_synonym jchar = nat
type_synonym jstring = "jchar list"

definition js :: "string \<Rightarrow> jstring" where
  "js s = map of_char s"

definition is_digit :: "jchar \<Rightarrow> bool" where
  "is_digit c = (48 \<le> c \<and> c \<le> 57)"

definition is_upper :: "jchar \<Rightarrow> bool" where
  "is_upper c = (65 \<le> c \<and> c \<le> 90)"

definition is_lower :: "jchar \<Rightarrow> bool" where
  "is_lower c = (97 \<le> c \<and> c \<le> 122)"

text \<open>The word characters of \<^verbatim>\<open>\w\<close> and \<^verbatim>\<open>\b\<close>: ASCII letters, digits and the underscore.\<close>

definition is_word_char :: "jchar \<Rightarrow> bool" where
  "is_word_char c = (is_digit c \<or> is_upper c \<or> is_lower c \<or> c = 95)"

definition is_line_terminator :: "jchar \<Rightarrow> bool" where
  "is_line_terminator c = (c = 10 \<or> c = 13 \<or> c = 8232 \<or> c = 8233)"

text \<open>White space of \<^verbatim>\<open>\s\<close> and of \<^verbatim>\<open>trim()\<close>: ECMAScript WhiteSpace and LineTerminator.\<close>

definition is_space :: "jchar \<Rightarrow> bool" where
  "is_space c = (c = 9 \<or> c = 10 \<or> c = 11 \<or> c = 12 \<or> c = 13 \<or> c = 32 \<or> c = 160 \<or>
     c = 5760 \<or> (8192 \<le> c \<and> c \<le> 8202) \<or> c = 8232 \<or> c = 8233 \<or> c = 8239 \<or>
     c = 8287 \<or> c = 12288 \<or> c = 65279)"

text \<open>
  Case mapping is modelled on ASCII letters and leaves every other code unit alone.
  The source lower-cases a size token (ASCII by its pattern) and tests a lower-cased
  label for the ASCII word \<^verbatim>\<open>latest\<close>; no code unit outside ASCII lower-cases to one of
  the letters of that word, so both uses agree with the full Unicode mapping.
\<close>

definition lower_char :: "jchar \<Rightarrow> jchar" where
  "lower_char c = (if is_upper c then c + 32 else c)"

definition upper_char :: "jchar \<Rightarrow> jchar" where
  "upper_char c = (if is_lower c then c - 32 else c)"

definition toLowerCase :: "jstring \<Rightarrow> jstring" where
  "toLowerCase s = map lower_char s"

fun starts_with :: "jstring \<Rightarrow> jstring \<Rightarrow> bool" where
  "starts_with s [] = True"
| "starts_with [] (t # ts) = False"
| "starts_with (c # cs) (t # ts) = (c = t \<and> starts_with cs ts)"

text \<open>\<^verbatim>\<open>s.includes(t)\<close>.\<close>

fun js_includes :: "jstring \<Rightarrow> jstring \<Rightarrow> bool" where
  "js_includes [] t = (t = [])"
| "js_includes (c # cs) t = (starts_with (c # cs) t \<or> js_includes cs t)"

definition trim :: "jstring \<Rightarrow> jstring" where
  "trim s = rev (dropWhile is_space (rev (dropWhile is_space s)))"

text \<open>\<^verbatim>\<open>s.replace(pat, by)\<close> with a string pattern: the first occurrence only.\<close>

fun replace_first :: "jstring \<Rightarrow> jstring \<Rightarrow> jstring \<Rightarrow> jstring" where
  "replace_first [] pat by' = (if pat = [] then by' else [])"
| "replace_first (c # cs) pat by' =
     (if starts_with (c # cs) pat then by' @ drop (length pat) (c # cs)
      else c # replace_first cs pat by')"

fun digits_value :: "nat \<Rightarrow> jstring \<Rightarrow> nat" where
  "digits_value acc [] = acc"
| "digits_value acc (c # cs) = digits_value (10 * acc + (c - 48)) cs"

text \<open>
  The JavaScript number \<^verbatim>\<open>parseInt\<close> gives for a run of digits: the double nearest to the
  integer written, ties to the even significand, and \<^verbatim>\<open>Infinity\<close> when that is \<open>2^1024\<close> or
  more. \<open>bits_over\<close> is the number of low bits that do not fit the 53 bits of a
  significand. An integer written with fewer than sixteen significant digits is below
  \<open>2^53\<close> and is its own double.
\<close>

datatype number = Finite nat | Infinity

fun bits_over :: "nat \<Rightarrow> nat" where
  "bits_over n = (if n < 9007199254740992 then 0 else Suc (bits_over (n div 2)))"

declare bits_over.simps [simp del]

definition to_double :: "nat \<Rightarrow> number" where
  "to_double n =
     (let e = bits_over n;
          q = n div 2 ^ e;
          r = n mod 2 ^ e;
          q' = (if 2 ^ e < 2 * r \<or> (2 * r = 2 ^ e \<and> odd q) then q + 1 else q)
      in if 2 ^ 1024 \<le> q' * 2 ^ e then Infinity else Finite (q' * 2 ^ e))"

definition parseInt :: "jstring \<Rightarrow> number" where
  "parseInt digits =
     (if length (dropWhile (\<lambda>c. c = 48) digits) < 16 then Finite (digits_value 0 digits)
      else to_double (digits_value 0 digits))"

section \<open>Regular expressions\<close>

text \<open>
  The patterns of the source are values of \<open>regex\<close>, matched by a backtracking matcher
  that follows the ECMAScript semantics: alternatives left to right, greedy and lazy
  quantifiers, capture groups reset at each iteration of a quantifier, an iteration of
  an optional quantifier that consumes nothing rejected. A matcher maps a state to the
  list of states it can end in, in the order backtracking tries them.
\<close>

datatype cclass = CDigit | CSpace | CWord

datatype citem = One jchar | Range jchar jchar | Esc cclass bool

datatype regex =
    Empty
  | Lit jchar
  | Dot
  | Class bool "citem list"
  | Bol
  | Eol
  | WordB bool
  | Cat regex regex
  | Alt regex regex
  | Group nat regex
  | Rep nat "nat option" bool regex

record flags =
  ignoreCase :: bool
  dotAll :: bool

text \<open>
  Canonicalize of a pattern without the \<^verbatim>\<open>u\<close> flag, on ASCII: under \<^verbatim>\<open>i\<close> both sides are
  upper-cased. A code unit outside ASCII never canonicalizes to an ASCII one, and every
  pattern the source matches under \<^verbatim>\<open>i\<close> is ASCII.
\<close>

definition canon :: "flags \<Rightarrow> jchar \<Rightarrow> jchar" where
  "canon f c = (if ignoreCase f then upper_char c else c)"

fun cclass_has :: "cclass \<Rightarrow> jchar \<Rightarrow> bool" where
  "cclass_has CDigit c = is_digit c"
| "cclass_has CSpace c = is_space c"
| "cclass_has CWord c = is_word_char c"

fun citem_match :: "flags \<Rightarrow> citem \<Rightarrow> jchar \<Rightarrow> bool" where
  "citem_match f (One a) c = (canon f a = canon f c)"
| "citem_match f (Range lo hi) c =
     ((lo \<le> c \<and> c \<le> hi) \<or>
      (ignoreCase f \<and> ((lo \<le> upper_char c \<and> upper_char c \<le> hi) \<or>
                        (lo \<le> lower_char c \<and> lower_char c \<le> hi))))"
| "citem_match f (Esc k neg) c = (cclass_has k c \<noteq> neg)"

text \<open>
  A matcher state: the code unit before the current position (\<open>None\<close> at the start of
  the input), the input from the current position on, and the captures.
\<close>

type_synonym captures = "nat \<Rightarrow> jstring option"
type_synonym mstate = "jchar option \<times> jstring \<times> captures"

fun step_char :: "(jchar \<Rightarrow> bool) \<Rightarrow> mstate \<Rightarrow> mstate list" where
  "step_char P (p, [], k) = []"
| "step_char P (p, c # cs, k) = (if P c then [(Some c, cs, k)] else [])"

fun is_word_opt :: "jchar option \<Rightarrow> bool" where
  "is_word_opt None = False"
| "is_word_opt (Some c) = is_word_char c"

fun first_opt :: "jstring \<Rightarrow> jchar option" where
  "first_opt [] = None"
| "first_opt (c # cs) = Some c"

fun at_boundary :: "mstate \<Rightarrow> bool" where
  "at_boundary (p, r, k) = (is_word_opt p \<noteq> is_word_opt (first_opt r))"

fun groups_of :: "regex \<Rightarrow> nat list" where
  "groups_of (Cat a b) = groups_of a @ groups_of b"
| "groups_of (Alt a b) = groups_of a @ groups_of b"
| "groups_of (Group n a) = n # groups_of a"
| "groups_of (Rep lo hi g a) = groups_of a"
| "groups_of r = []"

fun clear_groups :: "nat list \<Rightarrow> mstate \<Rightarrow> mstate" where
  "clear_groups gs (p, r, k) = (p, r, (\<lambda>n. if n \<in> set gs then None else k n))"

fun set_capture :: "nat \<Rightarrow> mstate \<Rightarrow> mstate \<Rightarrow> mstate" where
  "set_capture n (p, r, k) (p', r', k') = (p', r', k'(n := Some (take (length r - length r') r)))"

fun remaining :: "mstate \<Rightarrow> nat" where
  "remaining (p, r, k) = length r"

text \<open>
  RepeatMatcher. \<open>lo\<close> iterations are required, then up to \<open>hi\<close> (\<open>None\<close>: unbounded) are
  optional; an optional iteration that consumes nothing is rejected. \<open>rep_each\<close> continues
  from each state one iteration can end in. The first argument bounds the number of
  iterations: every optional iteration consumes input, so \<open>lo\<close> plus the length of the
  remaining input (plus one) is never exhausted.
\<close>

fun rep :: "nat \<Rightarrow> (mstate \<Rightarrow> mstate list) \<Rightarrow> bool \<Rightarrow> nat \<Rightarrow> nat option \<Rightarrow> mstate \<Rightarrow> mstate list"
  and rep_each :: "nat \<Rightarrow> (mstate \<Rightarrow> mstate list) \<Rightarrow> bool \<Rightarrow> nat \<Rightarrow> nat option \<Rightarrow> mstate \<Rightarrow>
    mstate list \<Rightarrow> mstate list" where
  "rep 0 step g lo hi x = (if hi = Some 0 then [x] else [])"
| "rep (Suc n) step g lo hi x =
     (if hi = Some 0 then [x]
      else if 0 < lo then rep_each n step g lo hi x (step x)
      else if g then rep_each n step g lo hi x (step x) @ [x]
      else x # rep_each n step g lo hi x (step x))"
| "rep_each n step g lo hi x [] = []"
| "rep_each n step g lo hi x (y # ys) =
     (if lo = 0 \<and> remaining x \<le> remaining y then []
      else rep n step g (lo - 1) (map_option (\<lambda>h. h - 1) hi) y) @
     rep_each n step g lo hi x ys"

primrec m :: "regex \<Rightarrow> flags \<Rightarrow> mstate \<Rightarrow> mstate list" where
  "m Empty f x = [x]"
| "m (Lit a) f x = step_char (\<lambda>c. canon f a = canon f c) x"
| "m Dot f x = step_char (\<lambda>c. dotAll f \<or> \<not> is_line_terminator c) x"
| "m (Class neg items) f x = step_char (\<lambda>c. list_ex (\<lambda>it. citem_match f it c) items \<noteq> neg) x"
| "m Bol f x = (if fst x = None then [x] else [])"
| "m Eol f x = (if fst (snd x) = [] then [x] else [])"
| "m (WordB b) f x = (if at_boundary x = b then [x] else [])"
| "m (Cat a b) f x = concat (map (m b f) (m a f x))"
| "m (Alt a b) f x = m a f x @ m b f x"
| "m (Group n a) f x = map (set_capture n x) (m a f x)"
| "m (Rep lo hi g a) f x =
     rep (Suc (lo + remaining x)) (\<lambda>y. m a f (clear_groups (groups_of a) y)) g lo hi x"

text \<open>
  The result of \<^verbatim>\<open>exec\<close> / \<^verbatim>\<open>String.prototype.match\<close> without \<^verbatim>\<open>g\<close>: the index of the
  leftmost match, the matched text and the captures.
\<close>

record rmatch =
  index :: nat
  whole :: jstring
  captured :: captures

fun exec_from :: "regex \<Rightarrow> flags \<Rightarrow> nat \<Rightarrow> jchar option \<Rightarrow> jstring \<Rightarrow> rmatch option" where
  "exec_from r f i p [] =
     (case m r f (p, [], (\<lambda>n. None)) of
        [] \<Rightarrow> None
      | y # ys \<Rightarrow> Some \<lparr>index = i, whole = [], captured = snd (snd y)\<rparr>)"
| "exec_from r f i p (c # cs) =
     (case m r f (p, c # cs, (\<lambda>n. None)) of
        [] \<Rightarrow> exec_from r f (Suc i) (Some c) cs
      | y # ys \<Rightarrow> Some \<lparr>index = i, whole = take (length (c # cs) - remaining y) (c # cs),
                        captured = snd (snd y)\<rparr>)"

definition exec :: "regex \<Rightarrow> flags \<Rightarrow> jstring \<Rightarrow> rmatch option" where
  "exec r f s = exec_from r f 0 None s"

definition regex_test :: "regex \<Rightarrow> flags \<Rightarrow> jstring \<Rightarrow> bool" where
  "regex_test r f s = (exec r f s \<noteq> None)"

text \<open>
  \<^verbatim>\<open>s.match(re)\<close> under the \<^verbatim>\<open>g\<close> flag: the matched texts, left to right, each search
  starting where the previous match ended (one further on after an empty match). The
  counter is the number of code units still inside the previous match.
\<close>

fun match_all_from :: "regex \<Rightarrow> flags \<Rightarrow> nat \<Rightarrow> jchar option \<Rightarrow> jstring \<Rightarrow> jstring list" where
  "match_all_from r f k p [] =
     (if 0 < k then []
      else (case m r f (p, [], (\<lambda>n. None)) of [] \<Rightarrow> [] | y # ys \<Rightarrow> [[]]))"
| "match_all_from r f k p (c # cs) =
     (if 0 < k then match_all_from r f (k - 1) (Some c) cs
      else (case m r f (p, c # cs, (\<lambda>n. None)) of
              [] \<Rightarrow> match_all_from r f 0 (Some c) cs
            | y # ys \<Rightarrow>
                (let w = take (length (c # cs) - remaining y) (c # cs)
                 in w # match_all_from r f (length w - 1) (Some c) cs)))"

definition match_all :: "regex \<Rightarrow> flags \<Rightarrow> jstring \<Rightarrow> jstring list" where
  "match_all r f s = match_all_from r f 0 None s"

section \<open>Compiling a pattern: \<^verbatim>\<open>new RegExp(source)\<close>\<close>

text \<open>
  The source builds one pattern from text of the page (a model name spliced into a
  pattern), so the constructor is part of the program: it returns a pattern or throws a
  SyntaxError. The fragment modelled is the syntax without the \<^verbatim>\<open>u\<close> flag: literal
  characters, \<^verbatim>\<open>.\<close>, the escapes \<^verbatim>\<open>\d \D \s \S \w \W \b \B \n \t \r \f \v\<close>, an escaped
  non-word character, classes with ranges, groups, alternatives, \<^verbatim>\<open>^\<close> and \<^verbatim>\<open>$\<close>, and the
  quantifiers \<^verbatim>\<open>* + ? {n} {n,} {n,m}\<close>, greedy or lazy. Every other group that opens with
  \<^verbatim>\<open>(?\<close> (look-around, named groups, modifiers), back references, the remaining letter
  and digit escapes and braced bounds of ten digits or more are outside the fragment:
  compiling them gives \<open>Beyond\<close>, and what the source does with such a pattern is left to
  the host (\<open>host_exec\<close> below), about which nothing is assumed.
\<close>

datatype 'a compiled = Compiled 'a | SyntaxError | Beyond

datatype token =
    TAtom regex
  | TAssert regex
  | TOpen bool
  | TClose
  | TBar
  | TQuant nat "nat option" bool
  | TSyntaxError
  | TBeyond

text \<open>The token of a backslash followed by the code unit \<open>e\<close>, outside a class.\<close>

definition lex_escape :: "jchar \<Rightarrow> token" where
  "lex_escape e =
     (if e = 100 then TAtom (Class False [Esc CDigit False])
      else if e = 68 then TAtom (Class False [Esc CDigit True])
      else if e = 115 then TAtom (Class False [Esc CSpace False])
      else if e = 83 then TAtom (Class False [Esc CSpace True])
      else if e = 119 then TAtom (Class False [Esc CWord False])
      else if e = 87 then TAtom (Class False [Esc CWord True])
      else if e = 98 then TAssert (WordB True)
      else if e = 66 then TAssert (WordB False)
      else if e = 110 then TAtom (Lit 10)
      else if e = 116 then TAtom (Lit 9)
      else if e = 114 then TAtom (Lit 13)
      else if e = 102 then TAtom (Lit 12)
      else if e = 118 then TAtom (Lit 11)
      else if is_digit e \<or> is_upper e \<or> is_lower e then TBeyond
      else TAtom (Lit e))"

text \<open>The same inside a class, where \<^verbatim>\<open>\b\<close> is the backspace.\<close>

definition class_escape :: "jchar \<Rightarrow> citem compiled" where
  "class_escape e =
     (if e = 100 then Compiled (Esc CDigit False)
      else if e = 68 then Compiled (Esc CDigit True)
      else if e = 115 then Compiled (Esc CSpace False)
      else if e = 83 then Compiled (Esc CSpace True)
      else if e = 119 then Compiled (Esc CWord False)
      else if e = 87 then Compiled (Esc CWord True)
      else if e = 98 then Compiled (One 8)
      else if e = 110 then Compiled (One 10)
      else if e = 116 then Compiled (One 9)
      else if e = 114 then Compiled (One 13)
      else if e = 102 then Compiled (One 12)
      else if e = 118 then Compiled (One 11)
      else if is_digit e \<or> is_upper e \<or> is_lower e then Beyond
      else Compiled (One e))"

text \<open>
  The number of code units of a class body, up to its closing bracket (an escaped
  bracket does not close it); \<open>None\<close> when the class is not closed.
\<close>

fun class_extent :: "jstring \<Rightarrow> nat option" where
  "class_extent [] = None"
| "class_extent [c] = (if c = 93 then Some 0 else None)"
| "class_extent (c # d # cs) =
     (if c = 93 then Some 0
      else if c = 92 then map_option (\<lambda>n. n + 2) (class_extent cs)
      else map_option Suc (class_extent (d # cs)))"

text \<open>
  The atoms of a class body; the flag marks an unescaped hyphen, which may stand
  between the two ends of a range.
\<close>

fun class_atoms :: "jstring \<Rightarrow> ((citem \<times> bool) list) compiled" where
  "class_atoms [] = Compiled []"
| "class_atoms [c] = (if c = 92 then SyntaxError else Compiled [(One c, c = 45)])"
| "class_atoms (c # d # cs) =
     (if c = 92 then
        (case class_escape d of
           Compiled a \<Rightarrow> (case class_atoms cs of Compiled as \<Rightarrow> Compiled ((a, False) # as)
                          | SyntaxError \<Rightarrow> SyntaxError | Beyond \<Rightarrow> Beyond)
         | SyntaxError \<Rightarrow> SyntaxError
         | Beyond \<Rightarrow> Beyond)
      else (case class_atoms (d # cs) of Compiled as \<Rightarrow> Compiled ((One c, c = 45) # as)
            | SyntaxError \<Rightarrow> SyntaxError | Beyond \<Rightarrow> Beyond))"

text \<open>
  ClassRanges: atom, hyphen, atom is a range when both ends are single code units (out
  of order: a SyntaxError); with a class escape at an end the hyphen is literal.
\<close>

fun class_ranges :: "(citem \<times> bool) list \<Rightarrow> (citem list) compiled" where
  "class_ranges ((a, ha) # (h, True) # (b, hb) # rest) =
     (case (a, b) of
        (One lo, One hi) \<Rightarrow>
          (if hi < lo then SyntaxError
           else (case class_ranges rest of Compiled is \<Rightarrow> Compiled (Range lo hi # is)
                 | SyntaxError \<Rightarrow> SyntaxError | Beyond \<Rightarrow> Beyond))
      | _ \<Rightarrow> (case class_ranges rest of Compiled is \<Rightarrow> Compiled (a # h # b # is)
              | SyntaxError \<Rightarrow> SyntaxError | Beyond \<Rightarrow> Beyond))"
| "class_ranges ((a, ha) # rest) =
     (case class_ranges rest of Compiled is \<Rightarrow> Compiled (a # is)
      | SyntaxError \<Rightarrow> SyntaxError | Beyond \<Rightarrow> Beyond)"
| "class_ranges [] = Compiled []"

text \<open>The token of a class, from the text after its opening bracket.\<close>

definition lex_class :: "jstring \<Rightarrow> token" where
  "lex_class body =
     (let neg = (first_opt body = Some 94);
          items = (if neg then drop 1 body else body)
      in (case class_atoms items of
            Compiled as \<Rightarrow>
              (case class_ranges as of
                 Compiled is \<Rightarrow> TAtom (Class neg is)
               | SyntaxError \<Rightarrow> TSyntaxError
               | Beyond \<Rightarrow> TBeyond)
          | SyntaxError \<Rightarrow> TSyntaxError
          | Beyond \<Rightarrow> TBeyond))"

text \<open>
  A braced quantifier, from the text between the braces: \<^verbatim>\<open>n\<close>, \<^verbatim>\<open>n,\<close> or \<^verbatim>\<open>n,m\<close>. Any other
  text is no quantifier, and the opening brace is then a literal character.
\<close>

definition all_digits :: "jstring \<Rightarrow> bool" where
  "all_digits s = (s \<noteq> [] \<and> list_all is_digit s)"

definition brace_bounds :: "jstring \<Rightarrow> (nat \<times> nat option) option" where
  "brace_bounds body =
     (let lo = takeWhile (\<lambda>c. c \<noteq> 44) body;
          after = dropWhile (\<lambda>c. c \<noteq> 44) body
      in if \<not> all_digits lo then None
         else if after = [] then Some (digits_value 0 lo, Some (digits_value 0 lo))
         else if tl after = [] then Some (digits_value 0 lo, None)
         else if all_digits (tl after) then Some (digits_value 0 lo, Some (digits_value 0 (tl after)))
         else None)"

text \<open>A bound written with ten digits or more: it may pass \<open>2^31 - 1\<close>.\<close>

definition long_bounds :: "jstring \<Rightarrow> bool" where
  "long_bounds body =
     (9 < length (takeWhile (\<lambda>c. c \<noteq> 44) body) \<or> 10 < length (dropWhile (\<lambda>c. c \<noteq> 44) body))"

text \<open>A quantifier followed by \<^verbatim>\<open>?\<close> is lazy; the result is the token and what it consumed.\<close>

definition lex_quant :: "nat \<Rightarrow> nat option \<Rightarrow> jstring \<Rightarrow> token \<times> nat" where
  "lex_quant lo hi rest =
     (if first_opt rest = Some 63 then (TQuant lo hi False, 1) else (TQuant lo hi True, 0))"

text \<open>
  The first token of a non-empty pattern text and the number of code units after its
  first one that belong to it.
\<close>

definition next_token :: "jchar \<Rightarrow> jstring \<Rightarrow> token \<times> nat" where
  "next_token c cs =
     (if c = 92 then (case cs of [] \<Rightarrow> (TSyntaxError, 0) | e # cs' \<Rightarrow> (lex_escape e, 1))
      else if c = 40 then
        (if first_opt cs = Some 63 then
           (if first_opt (drop 1 cs) = Some 58 then (TOpen False, 2) else (TBeyond, 0))
         else (TOpen True, 0))
      else if c = 41 then (TClose, 0)
      else if c = 124 then (TBar, 0)
      else if c = 46 then (TAtom Dot, 0)
      else if c = 94 then (TAssert Bol, 0)
      else if c = 36 then (TAssert Eol, 0)
      else if c = 42 then lex_quant 0 None cs
      else if c = 43 then lex_quant 1 None cs
      else if c = 63 then lex_quant 0 (Some 1) cs
      else if c = 123 then
        (if 125 \<in> set cs then
           (let body = takeWhile (\<lambda>d. d \<noteq> 125) cs
            in (case brace_bounds body of
                  None \<Rightarrow> (TAtom (Lit 123), 0)
                | Some (lo, hi) \<Rightarrow>
                    (if long_bounds body then (TBeyond, 0)
                     else (let (t, n) = lex_quant lo hi (drop (Suc (length body)) cs)
                           in (t, Suc (length body) + n)))))
         else (TAtom (Lit 123), 0))
      else if c = 91 then
        (case class_extent cs of
           None \<Rightarrow> (TSyntaxError, 0)
         | Some n \<Rightarrow> (lex_class (take n cs), Suc n))
      else (TAtom (Lit c), 0))"

fun tokenize :: "jstring \<Rightarrow> token list" where
  "tokenize [] = []"
| "tokenize (c # cs) = fst (next_token c cs) # tokenize (drop (snd (next_token c cs)) cs)"

text \<open>
  The parser: a stack of the groups that are open, each with the alternatives and the
  terms read before it was opened. A term carries the flag "a quantifier may follow":
  an atom does, an assertion and a quantified term do not. Capture groups are numbered
  by their opening parentheses, from 1.
\<close>

type_synonym terms = "(regex \<times> bool) list"
type_synonym frame = "nat option \<times> regex list \<times> terms"

fun cat_list :: "regex list \<Rightarrow> regex" where
  "cat_list [] = Empty"
| "cat_list [a] = a"
| "cat_list (a # b # bs) = Cat a (cat_list (b # bs))"

fun alt_list :: "regex list \<Rightarrow> regex" where
  "alt_list [] = Empty"
| "alt_list [a] = a"
| "alt_list (a # b # bs) = Alt a (alt_list (b # bs))"

definition mk_seq :: "terms \<Rightarrow> regex" where
  "mk_seq ts = cat_list (rev (map fst ts))"

definition mk_alt :: "regex list \<Rightarrow> terms \<Rightarrow> regex" where
  "mk_alt alts ts = alt_list (alts @ [mk_seq ts])"

fun parse_tokens :: "token list \<Rightarrow> nat \<Rightarrow> frame list \<Rightarrow> regex list \<Rightarrow> terms \<Rightarrow> regex compiled" where
  "parse_tokens [] n st alts ts = (if st = [] then Compiled (mk_alt alts ts) else SyntaxError)"
| "parse_tokens (TAtom a # tks) n st alts ts = parse_tokens tks n st alts ((a, True) # ts)"
| "parse_tokens (TAssert a # tks) n st alts ts = parse_tokens tks n st alts ((a, False) # ts)"
| "parse_tokens (TQuant lo hi g # tks) n st alts ts =
     (case ts of
        (a, True) # ts' \<Rightarrow>
          (if (case hi of None \<Rightarrow> False | Some h \<Rightarrow> h < lo) then SyntaxError
           else parse_tokens tks n st alts ((Rep lo hi g a, False) # ts'))
      | _ \<Rightarrow> SyntaxError)"
| "parse_tokens (TOpen cap # tks) n st alts ts =
     (if cap then parse_tokens tks (Suc n) ((Some (Suc n), alts, ts) # st) [] []
      else parse_tokens tks n ((None, alts, ts) # st) [] [])"
| "parse_tokens (TBar # tks) n st alts ts = parse_tokens tks n st (alts @ [mk_seq ts]) []"
| "parse_tokens (TClose # tks) n st alts ts =
     (case st of
        [] \<Rightarrow> SyntaxError
      | (gi, alts0, ts0) # st' \<Rightarrow>
          parse_tokens tks n st' alts0
            (((case gi of None \<Rightarrow> mk_alt alts ts | Some i \<Rightarrow> Group i (mk_alt alts ts)), True) # ts0))"
| "parse_tokens (TSyntaxError # tks) n st alts ts = SyntaxError"
| "parse_tokens (TBeyond # tks) n st alts ts = Beyond"

definition RegExp :: "jstring \<Rightarrow> regex compiled" where
  "RegExp source = parse_tokens (tokenize source) 0 [] [] []"

section \<open>The patterns of the scraper\<close>

definition flags_none :: flags where
  "flags_none = \<lparr>ignoreCase = False, dotAll = False\<rparr>"

definition flags_i :: flags where
  "flags_i = \<lparr>ignoreCase = True, dotAll = False\<rparr>"

definition flags_s :: flags where
  "flags_s = \<lparr>ignoreCase = False, dotAll = True\<rparr>"

definition lits :: "jstring \<Rightarrow> regex list" where
  "lits s = map Lit s"

definition digit :: regex where
  "digit = Class False [Esc CDigit False]"

definition space :: regex where
  "space = Class False [Esc CSpace False]"

definition wordc :: regex where
  "wordc = Class False [Esc CWord False]"

definition star :: "regex \<Rightarrow> regex" where
  "star r = Rep 0 None True r"

definition plus :: "regex \<Rightarrow> regex" where
  "plus r = Rep 1 None True r"

definition opt :: "regex \<Rightarrow> regex" where
  "opt r = Rep 0 (Some 1) True r"

text \<open>\<^verbatim>\<open>/\bWORD\b/i\<close> for the capability and input-type keywords.\<close>

definition re_keyword :: "jstring \<Rightarrow> regex" where
  "re_keyword w = cat_list (WordB True # lits w @ [WordB True])"

text \<open>\<^verbatim>\<open>/\b\d+\.?\d*[bmk]\b/gi\<close>\<close>

definition re_param :: regex where
  "re_param = cat_list [WordB True, plus digit, opt (Lit 46), star digit,
     Class False [One 98, One 109, One 107], WordB True]"

text \<open>\<^verbatim>\<open>\d+\.?\d*[KMB]?\<close>, the count of pulls and downloads.\<close>

definition re_count :: regex where
  "re_count = cat_list [plus digit, opt (Lit 46), star digit,
     opt (Class False [One 75, One 77, One 66])]"

text \<open>\<^verbatim>\<open>/(\d+\.?\d*[KMB]?)\s*Pulls/i\<close>\<close>

definition re_pulls :: regex where
  "re_pulls = cat_list (Group 1 re_count # star space # lits (js ''Pulls''))"

text \<open>\<^verbatim>\<open>/(\d+)\s*Tags/i\<close>\<close>

definition re_tags :: regex where
  "re_tags = cat_list (Group 1 (plus digit) # star space # lits (js ''Tags''))"

text \<open>\<^verbatim>\<open>/Updated\s+(.+?)(?:\n|$)/i\<close>\<close>

definition re_updated :: regex where
  "re_updated = cat_list (lits (js ''Updated'') @
     [plus space, Group 1 (Rep 1 None False Dot), Alt (Lit 10) Eol])"

text \<open>\<^verbatim>\<open>/^(\d+\.?\d*[KMB]?)\s*Downloads?$/i\<close>\<close>

definition re_downloads :: regex where
  "re_downloads = cat_list ([Bol, Group 1 re_count, star space] @ lits (js ''Download'') @
     [opt (Lit 115), Eol])"

text \<open>\<^verbatim>\<open>/:([^/]+)$/\<close>\<close>

definition re_tag_suffix :: regex where
  "re_tag_suffix = cat_list [Lit 58, Group 1 (plus (Class True [One 47])), Eol]"

text \<open>\<^verbatim>\<open>/(\d+\.?\d*\s*[GMT]B)/i\<close>\<close>

definition re_size :: regex where
  "re_size = Group 1 (cat_list [plus digit, opt (Lit 46), star digit, star space,
     Class False [One 71, One 77, One 84], Lit 66])"

text \<open>\<^verbatim>\<open>/(\d+K)\s*context\s*window/i\<close>\<close>

definition re_context :: regex where
  "re_context = cat_list (Group 1 (Cat (plus digit) (Lit 75)) # star space #
     lits (js ''context'') @ star space # lits (js ''window''))"

text \<open>\<^verbatim>\<open>/\<cdot>\s*(.+?)$/\<close>: the separator is the middle dot, code unit 183.\<close>

definition re_variant_updated :: regex where
  "re_variant_updated = cat_list [Lit 183, star space, Group 1 (Rep 1 None False Dot), Eol]"

text \<open>\<^verbatim>\<open>/\b([a-f0-9]{12})\b/\<close>\<close>

definition re_digest :: regex where
  "re_digest = cat_list [WordB True,
     Group 1 (Rep 12 (Some 12) True (Class False [Range 97 102, Range 48 57])), WordB True]"

text \<open>\<^verbatim>\<open>/(\d+\s*(?:hour|day|week|month|year)s?\s*ago)/i\<close>\<close>

definition re_date_ago :: regex where
  "re_date_ago = Group 1 (cat_list ([plus digit, star space,
     alt_list [cat_list (lits (js ''hour'')), cat_list (lits (js ''day'')),
       cat_list (lits (js ''week'')), cat_list (lits (js ''month'')),
       cat_list (lits (js ''year''))],
     opt (Lit 115), star space] @ lits (js ''ago'')))"

text \<open>\<^verbatim>\<open>/\<bullet>\s*([^\<bullet>]+?)\s*$/\<close>: the separator is the bullet, code unit 8226.\<close>

definition re_date_bullet :: regex where
  "re_date_bullet = cat_list [Lit 8226, star space,
     Group 1 (Rep 1 None False (Class True [One 8226])), star space, Eol]"

text \<open>\<^verbatim>\<open>/(\d{1,2}\s*\w+\s*ago)/i\<close>\<close>

definition re_date_compact :: regex where
  "re_date_compact = Group 1 (cat_list ([Rep 1 (Some 2) True digit, star space, plus wordc,
     star space] @ lits (js ''ago'')))"

text \<open>
  \<^verbatim>\<open>param.replace(/[.*+?^${}()|[\]\\]/g, '\\$&')\<close>: a backslash before each of the
  characters \<^verbatim>\<open>. * + ? ^ $ { } ( ) | [ ] \\<close>.
\<close>

definition regex_special :: "jchar \<Rightarrow> bool" where
  "regex_special c = (c \<in> {46, 42, 43, 63, 94, 36, 123, 125, 40, 41, 124, 91, 93, 92})"

definition escape_regex :: "jstring \<Rightarrow> jstring" where
  "escape_regex s = concat (map (\<lambda>c. if regex_special c then [92, c] else [c]) s)"

text \<open>The source text of \<^verbatim>\<open>new RegExp(`\\b${escaped}\\s*(Pulls|Tags)`, 'i')\<close>.\<close>

definition param_regex_source :: "jstring \<Rightarrow> jstring" where
  "param_regex_source param = [92, 98] @ escape_regex param @ [92] @ js ''s*(Pulls|Tags)''"

text \<open>The source text of \<^verbatim>\<open>new RegExp(`${modelName}\\s+(.+?)(?:\\n|$)`, 's')\<close>.\<close>

definition description_regex_source :: "jstring \<Rightarrow> jstring" where
  "description_regex_source modelName = modelName @ [92] @ js ''s+(.+?)(?:'' @ [92] @ js ''n|$)''"

text \<open>\<^verbatim>\<open>match[1]\<close> of a successful match: \<open>None\<close> is \<^verbatim>\<open>undefined\<close>.\<close>

definition group1 :: "rmatch \<Rightarrow> jstring option" where
  "group1 mt = captured mt 1"

text \<open>\<^verbatim>\<open>s.replace(/\s+/g, '')\<close>\<close>

definition strip_spaces :: "jstring \<Rightarrow> jstring" where
  "strip_spaces s = filter (\<lambda>c. \<not> is_space c) s"

section \<open>The document\<close>

text \<open>
  The tree \<^verbatim>\<open>cheerio.load(html)\<close> builds from the body of the response: text, comments
  and elements with their attributes and children; a document is the list of its
  top-level nodes.
\<close>

datatype node =
    TextNode jstring
  | Comment jstring
  | Element jstring "(jstring \<times> jstring) list" "node list"

type_synonym document = "node list"

fun tag_of :: "node \<Rightarrow> jstring" where
  "tag_of (Element t as cs) = t"
| "tag_of n = []"

fun children :: "node \<Rightarrow> node list" where
  "children (Element t as cs) = cs"
| "children n = []"

fun is_element :: "node \<Rightarrow> bool" where
  "is_element (Element t as cs) = True"
| "is_element n = False"

text \<open>\<^verbatim>\<open>$(el).attr(name)\<close>: \<open>None\<close> is \<^verbatim>\<open>undefined\<close>.\<close>

fun attr :: "jstring \<Rightarrow> node \<Rightarrow> jstring option" where
  "attr a (Element t as cs) = map_of as a"
| "attr a n = None"

text \<open>\<^verbatim>\<open>$(el).text()\<close>: the text nodes below the node, in document order.\<close>

fun text_of :: "node \<Rightarrow> jstring" where
  "text_of (TextNode t) = t"
| "text_of (Comment t) = []"
| "text_of (Element t as cs) = concat (map text_of cs)"

text \<open>The text of a selection: the texts of its elements, concatenated.\<close>

definition text_of_all :: "node list \<Rightarrow> jstring" where
  "text_of_all ns = concat (map text_of ns)"

text \<open>The elements of a forest in document order: what a selector ranges over.\<close>

fun elements_in :: "node list \<Rightarrow> node list" where
  "elements_in [] = []"
| "elements_in (TextNode t # ns) = elements_in ns"
| "elements_in (Comment t # ns) = elements_in ns"
| "elements_in (Element t as cs # ns) = Element t as cs # elements_in cs @ elements_in ns"

text \<open>\<^verbatim>\<open>$(el).find(selector)\<close> ranges over the elements below \<open>el\<close>.\<close>

definition descendants :: "node \<Rightarrow> node list" where
  "descendants n = elements_in (children n)"

text \<open>
  An element in its place: its ancestors, nearest first (\<^verbatim>\<open>.parent()\<close> is the first),
  and the nodes after it under the same parent (\<^verbatim>\<open>.next()\<close> is the first element
  among them).
\<close>

record cursor =
  self :: node
  ancestors :: "node list"
  following :: "node list"

fun cursors :: "node list \<Rightarrow> node list \<Rightarrow> cursor list" where
  "cursors anc [] = []"
| "cursors anc (TextNode t # ns) = cursors anc ns"
| "cursors anc (Comment t # ns) = cursors anc ns"
| "cursors anc (Element t as cs # ns) =
     \<lparr>self = Element t as cs, ancestors = anc, following = ns\<rparr> #
     cursors (Element t as cs # anc) cs @ cursors anc ns"

definition has_tag :: "jstring \<Rightarrow> node \<Rightarrow> bool" where
  "has_tag t n = (is_element n \<and> tag_of n = t)"

text \<open>\<^verbatim>\<open>[href^="v"]\<close> and \<^verbatim>\<open>[href*="v"]\<close>.\<close>

definition href_starts :: "jstring \<Rightarrow> node \<Rightarrow> bool" where
  "href_starts v n = (case attr (js ''href'') n of None \<Rightarrow> False | Some h \<Rightarrow> starts_with h v)"

definition href_contains :: "jstring \<Rightarrow> node \<Rightarrow> bool" where
  "href_contains v n = (case attr (js ''href'') n of None \<Rightarrow> False | Some h \<Rightarrow> js_includes h v)"

definition has_id :: "jstring \<Rightarrow> node \<Rightarrow> bool" where
  "has_id v n = (is_element n \<and> attr (js ''id'') n = Some v)"

section \<open>Records, errors and collaborators\<close>

text \<open>
  The three record types of the source. A field keeps its name behind the prefix of its
  record (\<open>li_\<close> ModelListItem, \<open>tag_\<close> ModelTag, \<open>var_\<close> an entry of \<^verbatim>\<open>models\<close>, \<open>det_\<close>
  ModelDetails); an optional field is an \<open>option\<close>.
\<close>

record ModelListItem =
  li_name :: jstring
  li_description :: jstring
  li_parameters :: "jstring list"
  li_pulls :: jstring
  li_tags :: number
  li_lastUpdated :: jstring
  li_url :: jstring
  li_capabilities :: "jstring list option"

record ModelTag =
  tag_name :: jstring
  tag_size :: jstring
  tag_digest :: jstring
  tag_modifiedAt :: jstring
  tag_contextWindow :: "jstring option"
  tag_inputType :: "jstring option"
  tag_aliases :: "jstring list option"

record ModelVariant =
  var_name :: jstring
  var_size :: jstring
  var_contextWindow :: "jstring option"
  var_inputType :: "jstring option"
  var_lastUpdated :: jstring

record ModelDetails =
  det_name :: jstring
  det_description :: jstring
  det_downloads :: jstring
  det_lastUpdated :: jstring
  det_readmeHtml :: "jstring option"
  det_readmeMarkdown :: "jstring option"
  det_models :: "ModelVariant list"

text \<open>
  What is thrown inside the \<^verbatim>\<open>try\<close> of an operation, and the error the \<^verbatim>\<open>catch\<close> rethrows:
  \<^verbatim>\<open>Failed to fetch model listing|details|tags: ${error}\<close>.
\<close>

datatype cause =
    HttpStatus nat
  | TransportFailure jstring
  | RegExpSyntaxError jstring
  | TypeErrorUndefined
  | SelectorError jstring

datatype operation = ModelListingOp | ModelDetailsOp | ModelTagsOp

datatype error = FailedToFetch operation cause

text \<open>
  What \<^verbatim>\<open>fetch(url)\<close> gives: a rejection (with the text of what was thrown), or a response
  with its status and its body, which \<^verbatim>\<open>response.text()\<close> reads or fails to read.
\<close>

datatype body = Unreadable jstring | Html document

datatype response = Rejected jstring | Response nat body

definition response_ok :: "nat \<Rightarrow> bool" where
  "response_ok status = (200 \<le> status \<and> status < 300)"

text \<open>
  What the host gives for \<^verbatim>\<open>text.match(new RegExp(source, flags))\<close> when the pattern is
  outside the fragment compiled above: the constructor throws, or there is no match, or
  there is one, with its group 1 (\<open>None\<close>: the group took no part).
\<close>

datatype host_result = HostThrows | HostNoMatch | HostMatch "jstring option"

text \<open>
  The collaborators: the transport, the serializer of URL query values, cheerio's
  \<^verbatim>\<open>.html()\<close> of an element, the Markdown converter, which returns the Markdown or
  throws (\<open>Inl\<close>), the regular expressions of the host for the patterns outside the
  fragment, and cheerio's selector engine for a selector text whose reading depends on
  the selector syntax: it throws (\<open>Inl\<close>) or selects elements of the document, given by
  their positions in document order. Nothing is assumed about any of them.
\<close>

record collaborators =
  fetch :: "jstring \<Rightarrow> response"
  encode_query :: "jstring \<Rightarrow> jstring"
  inner_html :: "node \<Rightarrow> jstring"
  turndown :: "jstring \<Rightarrow> jstring + jstring"
  host_exec :: "jstring \<Rightarrow> flags \<Rightarrow> jstring \<Rightarrow> host_result"
  host_select :: "jstring \<Rightarrow> document \<Rightarrow> jstring + (nat \<Rightarrow> bool)"

definition baseUrl :: jstring where
  "baseUrl = js ''https://ollama.com''"

text \<open>The body of a response inside the \<^verbatim>\<open>try\<close>: what is thrown before the page is parsed.\<close>

definition page_of :: "response \<Rightarrow> cause + document" where
  "page_of r =
     (case r of
        Rejected e \<Rightarrow> Inl (TransportFailure e)
      | Response status b \<Rightarrow>
          (if \<not> response_ok status then Inl (HttpStatus status)
           else (case b of Unreadable e \<Rightarrow> Inl (TransportFailure e) | Html doc \<Rightarrow> Inr doc)))"

section \<open>Field extraction shared by the operations\<close>

text \<open>
  \<^verbatim>\<open>match[1]\<close> where the source uses it as a string. In the fixed patterns of the source
  group 1 takes part in every match.
\<close>

definition group1_text :: "rmatch \<Rightarrow> jstring" where
  "group1_text mt = (case group1 mt of None \<Rightarrow> [] | Some g \<Rightarrow> g)"

definition size_of :: "jstring \<Rightarrow> jstring" where
  "size_of t = (case exec re_size flags_i t of None \<Rightarrow> [] | Some mt \<Rightarrow> strip_spaces (group1_text mt))"

definition contextWindow_of :: "jstring \<Rightarrow> jstring option" where
  "contextWindow_of t = (case exec re_context flags_i t of None \<Rightarrow> None | Some mt \<Rightarrow> Some (group1_text mt))"

definition inputType_of :: "jstring \<Rightarrow> jstring option" where
  "inputType_of t =
     (if regex_test (re_keyword (js ''vision'')) flags_i t then Some (js ''Vision'')
      else if regex_test (re_keyword (js ''text'')) flags_i t then Some (js ''Text'')
      else None)"

definition updated_of :: "jstring \<Rightarrow> jstring" where
  "updated_of t = (case exec re_updated flags_i t of None \<Rightarrow> [] | Some mt \<Rightarrow> trim (group1_text mt))"

section \<open>getModelListing\<close>

datatype SortOption = Newest | MostPopular | Oldest | Alphabetical

fun sort_text :: "SortOption \<Rightarrow> jstring" where
  "sort_text Newest = js ''newest''"
| "sort_text MostPopular = js ''most-popular''"
| "sort_text Oldest = js ''oldest''"
| "sort_text Alphabetical = js ''alphabetical''"

record ListingOptions =
  opt_query :: "jstring option"
  opt_sort :: "SortOption option"

definition listing_params :: "collaborators \<Rightarrow> ListingOptions option \<Rightarrow> jstring list" where
  "listing_params env options =
     (case options of
        None \<Rightarrow> []
      | Some os \<Rightarrow>
          (case opt_query os of
             None \<Rightarrow> []
           | Some q \<Rightarrow> (if q = [] then [] else [js ''q='' @ encode_query env q])) @
          (case opt_sort os of
             None \<Rightarrow> []
           | Some so \<Rightarrow> [js ''sort='' @ encode_query env (sort_text so)]))"

fun join_amp :: "jstring list \<Rightarrow> jstring" where
  "join_amp [] = []"
| "join_amp [x] = x"
| "join_amp (x # y # ys) = x @ [38] @ join_amp (y # ys)"

definition listing_url :: "collaborators \<Rightarrow> ListingOptions option \<Rightarrow> jstring" where
  "listing_url env options =
     baseUrl @ js ''/library'' @
     (if listing_params env options = [] then [] else [63] @ join_amp (listing_params env options))"

text \<open>\<^verbatim>\<open>$li.find('a[href^="/library/"]').first()\<close>\<close>

definition first_library_link :: "node \<Rightarrow> node option" where
  "first_library_link li =
     List.find (\<lambda>n. has_tag (js ''a'') n \<and> href_starts (js ''/library/'') n) (descendants li)"

text \<open>
  \<^verbatim>\<open>text.match(new RegExp(source, flags))\<close>, as far as the source looks at it: the
  constructor throws, or the result is \<^verbatim>\<open>null\<close> (\<open>None\<close>), or a match with its group 1.
\<close>

definition match_source :: "collaborators \<Rightarrow> jstring \<Rightarrow> flags \<Rightarrow> jstring \<Rightarrow> cause + jstring option option" where
  "match_source env source f t =
     (case RegExp source of
        SyntaxError \<Rightarrow> Inl (RegExpSyntaxError source)
      | Beyond \<Rightarrow>
          (case host_exec env source f t of
             HostThrows \<Rightarrow> Inl (RegExpSyntaxError source)
           | HostNoMatch \<Rightarrow> Inr None
           | HostMatch g \<Rightarrow> Inr (Some g))
      | Compiled r \<Rightarrow> Inr (map_option group1 (exec r f t)))"

text \<open>
  The description: the text of the first \<^verbatim>\<open>p\<close> below the item, or else group 1 of the
  pattern built from the model name, matched on the text of the item. Compiling that
  pattern can throw, and so can \<^verbatim>\<open>.trim()\<close> on a group that took no part in the match.
\<close>

definition description_of :: "collaborators \<Rightarrow> node \<Rightarrow> jstring \<Rightarrow> cause + jstring" where
  "description_of env li modelName =
     (case List.find (has_tag (js ''p'')) (descendants li) of
        Some p \<Rightarrow> Inr (trim (text_of p))
      | None \<Rightarrow>
          (case match_source env (description_regex_source modelName) flags_s (text_of li) of
             Inl c \<Rightarrow> Inl c
           | Inr None \<Rightarrow> Inr []
           | Inr (Some None) \<Rightarrow> Inl TypeErrorUndefined
           | Inr (Some (Some g)) \<Rightarrow> Inr (trim g)))"

definition capabilities_of :: "jstring \<Rightarrow> jstring list" where
  "capabilities_of t =
     (if regex_test (re_keyword (js ''tools'')) flags_i t then [js ''tools''] else []) @
     (if regex_test (re_keyword (js ''vision'')) flags_i t then [js ''vision''] else []) @
     (if regex_test (re_keyword (js ''thinking'')) flags_i t then [js ''thinking''] else []) @
     (if regex_test (re_keyword (js ''embedding'')) flags_i t then [js ''embedding''] else [])"

text \<open>
  The \<^verbatim>\<open>forEach\<close> over the size tokens: a token is pushed, lower-cased, unless its
  pattern (the token, then optional white space, then Pulls or Tags) matches somewhere
  in the text, or it is in the list already.
\<close>

fun collect_parameters ::
  "collaborators \<Rightarrow> jstring \<Rightarrow> jstring list \<Rightarrow> jstring list \<Rightarrow> cause + jstring list" where
  "collect_parameters env fullText [] parameters = Inr parameters"
| "collect_parameters env fullText (param # rest) parameters =
     (case match_source env (param_regex_source param) flags_i fullText of
        Inl c \<Rightarrow> Inl c
      | Inr found \<Rightarrow>
          (if found = None \<and> toLowerCase param \<notin> set parameters
           then collect_parameters env fullText rest (parameters @ [toLowerCase param])
           else collect_parameters env fullText rest parameters))"

definition parameters_of :: "collaborators \<Rightarrow> jstring \<Rightarrow> cause + jstring list" where
  "parameters_of env fullText =
     collect_parameters env fullText (match_all re_param flags_i fullText) []"

definition pulls_of :: "jstring \<Rightarrow> jstring" where
  "pulls_of t = (case exec re_pulls flags_i t of None \<Rightarrow> js ''0'' | Some mt \<Rightarrow> group1_text mt)"

definition tags_of :: "jstring \<Rightarrow> number" where
  "tags_of t = (case exec re_tags flags_i t of None \<Rightarrow> Finite 0 | Some mt \<Rightarrow> parseInt (group1_text mt))"

definition listing_item ::
  "collaborators \<Rightarrow> node \<Rightarrow> jstring \<Rightarrow> jstring \<Rightarrow> cause + ModelListItem" where
  "listing_item env li href modelName =
     (case description_of env li modelName of
        Inl c \<Rightarrow> Inl c
      | Inr description \<Rightarrow>
          (case parameters_of env (text_of li) of
             Inl c \<Rightarrow> Inl c
           | Inr parameters \<Rightarrow>
               Inr \<lparr>li_name = modelName,
                    li_description = description,
                    li_parameters = parameters,
                    li_pulls = pulls_of (text_of li),
                    li_tags = tags_of (text_of li),
                    li_lastUpdated = updated_of (text_of li),
                    li_url = baseUrl @ href,
                    li_capabilities =
                      (if capabilities_of (text_of li) = [] then None
                       else Some (capabilities_of (text_of li)))\<rparr>))"

text \<open>
  The body of \<^verbatim>\<open>$('li').each\<close> for one item: \<open>None\<close> when the callback returns early,
  else the slug and the \<^verbatim>\<open>href\<close> of the first link below the item whose \<^verbatim>\<open>href\<close> starts
  with \<^verbatim>\<open>/library/\<close>.
\<close>

definition listing_candidate :: "node \<Rightarrow> (jstring \<times> jstring) option" where
  "listing_candidate li =
     (case first_library_link li of
        None \<Rightarrow> None
      | Some link \<Rightarrow>
          (case attr (js ''href'') link of
             None \<Rightarrow> None
           | Some href \<Rightarrow>
               (if href = [] \<or> js_includes href (js ''/tags'') \<or> js_includes href (js '':'') then None
                else Some (replace_first href (js ''/library/'') [], href))))"

fun listing_loop ::
  "collaborators \<Rightarrow> node list \<Rightarrow> jstring set \<Rightarrow> ModelListItem list \<Rightarrow> cause + ModelListItem list" where
  "listing_loop env [] seenModels models = Inr models"
| "listing_loop env (li # lis) seenModels models =
     (case listing_candidate li of
        None \<Rightarrow> listing_loop env lis seenModels models
      | Some (modelName, href) \<Rightarrow>
          (if modelName \<in> seenModels then listing_loop env lis seenModels models
           else (case listing_item env li href modelName of
                   Inl c \<Rightarrow> Inl c
                 | Inr item \<Rightarrow> listing_loop env lis (insert modelName seenModels) (models @ [item]))))"

text \<open>\<^verbatim>\<open>$('li')\<close>: the containers the loop visits, in document order.\<close>

definition containers :: "document \<Rightarrow> node list" where
  "containers doc = filter (has_tag (js ''li'')) (elements_in doc)"

definition listing_of_page :: "collaborators \<Rightarrow> document \<Rightarrow> cause + ModelListItem list" where
  "listing_of_page env doc = listing_loop env (containers doc) {} []"

definition getModelListing :: "collaborators \<Rightarrow> ListingOptions option \<Rightarrow> error + ModelListItem list" where
  "getModelListing env options =
     (case page_of (fetch env (listing_url env options)) of
        Inl c \<Rightarrow> Inl (FailedToFetch ModelListingOp c)
      | Inr doc \<Rightarrow>
          (case listing_of_page env doc of
             Inl c \<Rightarrow> Inl (FailedToFetch ModelListingOp c)
           | Inr models \<Rightarrow> Inr models))"

section \<open>getModelDetails\<close>

definition details_url :: "jstring \<Rightarrow> jstring option \<Rightarrow> jstring" where
  "details_url modelName tag =
     (case tag of
        None \<Rightarrow> baseUrl @ js ''/library/'' @ modelName
      | Some t \<Rightarrow>
          (if t = [] then baseUrl @ js ''/library/'' @ modelName
           else baseUrl @ js ''/library/'' @ modelName @ js '':'' @ t))"

text \<open>The loop over \<^verbatim>\<open>$('span, div')\<close>: the first element whose whole text is a count of downloads.\<close>

fun first_download :: "node list \<Rightarrow> jstring" where
  "first_download [] = js ''0''"
| "first_download (el # els) =
     (case exec re_downloads flags_i (text_of el) of
        Some mt \<Rightarrow> group1_text mt
      | None \<Rightarrow> first_download els)"

definition downloads_of :: "document \<Rightarrow> jstring" where
  "downloads_of doc =
     first_download (filter (\<lambda>n. has_tag (js ''span'') n \<or> has_tag (js ''div'') n) (elements_in doc))"

fun first_time_text :: "node list \<Rightarrow> jstring" where
  "first_time_text [] = []"
| "first_time_text (el # els) =
     (if trim (text_of el) \<noteq> [] then trim (text_of el) else first_time_text els)"

definition details_lastUpdated :: "document \<Rightarrow> jstring" where
  "details_lastUpdated doc =
     (if first_time_text (filter (has_tag (js ''time'')) (elements_in doc)) \<noteq> []
      then first_time_text (filter (has_tag (js ''time'')) (elements_in doc))
      else updated_of (text_of_all (filter (has_tag (js ''main'')) (elements_in doc))))"

text \<open>\<^verbatim>\<open>href.match(/:([^/]+)$/)\<close>: the name of the tag a link leads to.\<close>

definition tag_of_href :: "jstring \<Rightarrow> jstring option" where
  "tag_of_href href =
     (case exec re_tag_suffix flags_none href of None \<Rightarrow> None | Some mt \<Rightarrow> Some (group1_text mt))"

definition href_of :: "node \<Rightarrow> jstring" where
  "href_of n = (case attr (js ''href'') n of None \<Rightarrow> [] | Some h \<Rightarrow> h)"

text \<open>
  The text around a variant link: that of \<^verbatim>\<open>$el.closest('li, div, tr')\<close>, or of the parent
  when there is none.
\<close>

definition variant_text :: "cursor \<Rightarrow> jstring" where
  "variant_text c =
     (case List.find (\<lambda>n. has_tag (js ''li'') n \<or> has_tag (js ''div'') n \<or> has_tag (js ''tr'') n)
             (self c # ancestors c) of
        Some n \<Rightarrow> text_of n
      | None \<Rightarrow> (case ancestors c of [] \<Rightarrow> [] | parent # up \<Rightarrow> text_of parent))"

definition variant_updated :: "jstring \<Rightarrow> jstring" where
  "variant_updated t =
     (case exec re_variant_updated flags_none t of None \<Rightarrow> [] | Some mt \<Rightarrow> trim (group1_text mt))"

definition variant_of :: "jstring \<Rightarrow> cursor \<Rightarrow> ModelVariant" where
  "variant_of tagName c =
     \<lparr>var_name = tagName,
      var_size = size_of (variant_text c),
      var_contextWindow = contextWindow_of (variant_text c),
      var_inputType = inputType_of (variant_text c),
      var_lastUpdated = variant_updated (variant_text c)\<rparr>"

fun variants_loop :: "cursor list \<Rightarrow> jstring set \<Rightarrow> ModelVariant list \<Rightarrow> ModelVariant list" where
  "variants_loop [] seenTags models = models"
| "variants_loop (c # cs) seenTags models =
     (case tag_of_href (href_of (self c)) of
        None \<Rightarrow> variants_loop cs seenTags models
      | Some tagName \<Rightarrow>
          (if tagName \<in> seenTags then variants_loop cs seenTags models
           else variants_loop cs (insert tagName seenTags) (models @ [variant_of tagName c])))"

text \<open>\<^verbatim>\<open>$('a[href*="/library/"][href*=":"]')\<close>\<close>

definition variant_links :: "document \<Rightarrow> cursor list" where
  "variant_links doc =
     filter (\<lambda>c. has_tag (js ''a'') (self c) \<and> href_contains (js ''/library/'') (self c) \<and>
                 href_contains (js '':'') (self c))
       (cursors [] doc)"

text \<open>
  The readme: \<^verbatim>\<open>readmeHtml\<close>, \<^verbatim>\<open>readmeMarkdown\<close> and what \<^verbatim>\<open>console.warn\<close> printed. The
  Markdown is asked for only when the HTML of the first \<^verbatim>\<open>#display\<close> element is not
  empty; when the converter throws, the warning is printed and the Markdown stays
  undefined.
\<close>

definition readme_of :: "collaborators \<Rightarrow> document \<Rightarrow> jstring option \<times> jstring option \<times> jstring list" where
  "readme_of env doc =
     (case filter (has_id (js ''display'')) (elements_in doc) of
        [] \<Rightarrow> (None, None, [])
      | d # ds \<Rightarrow>
          (if trim (inner_html env d) = [] then (None, None, [])
           else (case turndown env (trim (inner_html env d)) of
                   Inl e \<Rightarrow>
                     (Some (trim (inner_html env d)), None,
                      [js ''Failed to convert readme to markdown: '' @ e])
                 | Inr md \<Rightarrow>
                     (Some (trim (inner_html env d)),
                      (if trim md = [] then None else Some (trim md)), []))))"

definition details_of_page :: "collaborators \<Rightarrow> jstring \<Rightarrow> document \<Rightarrow> ModelDetails \<times> jstring list" where
  "details_of_page env modelName doc =
     (\<lparr>det_name = modelName,
       det_description = trim (text_of_all (filter (has_id (js ''summary-content'')) (elements_in doc))),
       det_downloads = downloads_of doc,
       det_lastUpdated = details_lastUpdated doc,
       det_readmeHtml = fst (readme_of env doc),
       det_readmeMarkdown = fst (snd (readme_of env doc)),
       det_models = variants_loop (variant_links doc) {} []\<rparr>,
      snd (snd (readme_of env doc)))"

text \<open>The result: the record and the warnings printed on the way, or the error thrown.\<close>

definition getModelDetails ::
  "collaborators \<Rightarrow> jstring \<Rightarrow> jstring option \<Rightarrow> error + ModelDetails \<times> jstring list" where
  "getModelDetails env modelName tag =
     (case page_of (fetch env (details_url modelName tag)) of
        Inl c \<Rightarrow> Inl (FailedToFetch ModelDetailsOp c)
      | Inr doc \<Rightarrow> Inr (details_of_page env modelName doc))"

section \<open>getModelTags\<close>

definition tags_url :: "jstring \<Rightarrow> jstring" where
  "tags_url modelName = baseUrl @ js ''/library/'' @ modelName @ js ''/tags''"

definition has_size_unit :: "jstring \<Rightarrow> bool" where
  "has_size_unit t = (js_includes t (js ''GB'') \<or> js_includes t (js ''MB'') \<or> js_includes t (js ''TB''))"

text \<open>First stage: the text of \<^verbatim>\<open>$link.next()\<close>, when it names a size unit.\<close>

definition sibling_text :: "cursor \<Rightarrow> jstring" where
  "sibling_text c =
     (case List.find is_element (following c) of
        None \<Rightarrow> []
      | Some sib \<Rightarrow> (if has_size_unit (text_of sib) then text_of sib else []))"

text \<open>
  Second stage, the \<^verbatim>\<open>while ($container.length && maxDepth > 0)\<close> loop: the containers
  are the ancestors still to visit, nearest first.
\<close>

fun walk_up :: "node list \<Rightarrow> nat \<Rightarrow> jstring" where
  "walk_up [] maxDepth = []"
| "walk_up (container # up) maxDepth =
     (if 0 < maxDepth then
        (if has_size_unit (text_of container) \<and> length (text_of container) < 200
         then text_of container
         else walk_up up (maxDepth - 1))
      else [])"

text \<open>
  Third stage, the \<^verbatim>\<open>for (let i = 0; i < 3; i++)\<close> loop over \<^verbatim>\<open>$current.next()\<close>: the
  elements after the link under its parent, in order.
\<close>

fun scan_next :: "node list \<Rightarrow> nat \<Rightarrow> jstring" where
  "scan_next [] i = []"
| "scan_next (current # after) i =
     (if i < 3 then
        (if has_size_unit (text_of current) \<and> length (text_of current) < 100
         then text_of current
         else scan_next after (i + 1))
      else [])"

definition tag_text :: "cursor \<Rightarrow> jstring" where
  "tag_text c =
     (if sibling_text c \<noteq> [] then sibling_text c
      else if walk_up (ancestors c) 3 \<noteq> [] then walk_up (ancestors c) 3
      else scan_next (filter is_element (following c)) 0)"

definition digest_of :: "jstring \<Rightarrow> jstring" where
  "digest_of t = (case exec re_digest flags_none t of None \<Rightarrow> [] | Some mt \<Rightarrow> group1_text mt)"

text \<open>The loop over \<^verbatim>\<open>datePatterns\<close>: the first pattern that matches gives the date.\<close>

fun first_date :: "(regex \<times> flags) list \<Rightarrow> jstring \<Rightarrow> jstring" where
  "first_date [] t = []"
| "first_date ((pattern, f) # later) t =
     (case exec pattern f t of
        Some mt \<Rightarrow> trim (group1_text mt)
      | None \<Rightarrow> first_date later t)"

definition datePatterns :: "(regex \<times> flags) list" where
  "datePatterns = [(re_date_ago, flags_i), (re_date_bullet, flags_none), (re_date_compact, flags_i)]"

definition modifiedAt_of :: "jstring \<Rightarrow> jstring" where
  "modifiedAt_of t = first_date datePatterns t"

definition aliases_of :: "jstring \<Rightarrow> jstring \<Rightarrow> jstring \<Rightarrow> jstring list" where
  "aliases_of tagName t label =
     (if tagName = js ''latest'' \<and> js_includes t (js ''latest'') then []
      else if tagName \<noteq> js ''latest'' \<and> js_includes (toLowerCase label) (js ''latest'')
      then [js ''latest'']
      else [])"

definition tag_record :: "jstring \<Rightarrow> cursor \<Rightarrow> ModelTag" where
  "tag_record tagName c =
     \<lparr>tag_name = tagName,
      tag_size = size_of (tag_text c),
      tag_digest = digest_of (tag_text c),
      tag_modifiedAt = modifiedAt_of (tag_text c),
      tag_contextWindow = contextWindow_of (tag_text c),
      tag_inputType = inputType_of (tag_text c),
      tag_aliases =
        (if aliases_of tagName (tag_text c) (text_of (self c)) = [] then None
         else Some (aliases_of tagName (tag_text c) (text_of (self c))))\<rparr>"

text \<open>
  The body of \<^verbatim>\<open>.each\<close> over the links, with the local set \<^verbatim>\<open>seenTags\<close>: a link whose
  \<^verbatim>\<open>href\<close> names no tag, or a tag seen before, is passed over.
\<close>

fun tags_loop :: "cursor list \<Rightarrow> jstring set \<Rightarrow> ModelTag list \<Rightarrow> ModelTag list" where
  "tags_loop [] seenTags tags = tags"
| "tags_loop (c # cs) seenTags tags =
     (case tag_of_href (href_of (self c)) of
        None \<Rightarrow> tags_loop cs seenTags tags
      | Some tagName \<Rightarrow>
          (if tagName \<in> seenTags then tags_loop cs seenTags tags
           else tags_loop cs (insert tagName seenTags) (tags @ [tag_record tagName c])))"

text \<open>The elements at the positions a selection names.\<close>

fun pick :: "(nat \<Rightarrow> bool) \<Rightarrow> nat \<Rightarrow> 'a list \<Rightarrow> 'a list" where
  "pick sel i [] = []"
| "pick sel i (x # xs) = (if sel i then x # pick sel (Suc i) xs else pick sel (Suc i) xs)"

definition tag_selector :: "jstring \<Rightarrow> jstring" where
  "tag_selector modelName = js ''a[href*='' @ [34] @ js ''/library/'' @ modelName @ js '':'' @ [34] @ js '']''"

text \<open>
  \<^verbatim>\<open>$(`a[href*="/library/${modelName}:"]`)\<close>. The model name is spliced into the selector
  between double quotes (code unit 34). A name without a double quote and without a
  backslash (code unit 92) is the text the attribute is searched for, as it stands.
  With one of the two the quoted value ends or is unescaped inside the name: the
  selector is then another one, or none, and the selection is the engine's.
\<close>

definition tag_links :: "collaborators \<Rightarrow> jstring \<Rightarrow> document \<Rightarrow> cause + cursor list" where
  "tag_links env modelName doc =
     (if 34 \<in> set modelName \<or> 92 \<in> set modelName then
        (case host_select env (tag_selector modelName) doc of
           Inl e \<Rightarrow> Inl (SelectorError e)
         | Inr sel \<Rightarrow> Inr (pick sel 0 (cursors [] doc)))
      else
        Inr (filter (\<lambda>c. has_tag (js ''a'') (self c) \<and>
                        href_contains (js ''/library/'' @ modelName @ js '':'') (self c))
               (cursors [] doc)))"

definition tags_of_page :: "collaborators \<Rightarrow> jstring \<Rightarrow> document \<Rightarrow> cause + ModelTag list" where
  "tags_of_page env modelName doc =
     (case tag_links env modelName doc of
        Inl c \<Rightarrow> Inl c
      | Inr links \<Rightarrow> Inr (tags_loop links {} []))"

definition getModelTags :: "collaborators \<Rightarrow> jstring \<Rightarrow> error + ModelTag list" where
  "getModelTags env modelName =
     (case page_of (fetch env (tags_url modelName)) of
        Inl c \<Rightarrow> Inl (FailedToFetch ModelTagsOp c)
      | Inr doc \<Rightarrow>
          (case tags_of_page env modelName doc of
             Inl c \<Rightarrow> Inl (FailedToFetch ModelTagsOp c)
           | Inr tags \<Rightarrow> Inr tags))"

section \<open>The specification's reading of the extractors\<close>

text \<open>
  The metadata cascade as the specification words it: three stages, each a search for
  the first acceptable text, stopping at the first stage that finds one.
\<close>

definition stage_one :: "cursor \<Rightarrow> jstring option" where
  "stage_one c =
     (case List.find is_element (following c) of
        None \<Rightarrow> None
      | Some sib \<Rightarrow> (if has_size_unit (text_of sib) then Some (text_of sib) else None))"

definition stage_two :: "cursor \<Rightarrow> jstring option" where
  "stage_two c =
     List.find (\<lambda>t. has_size_unit t \<and> length t < 200) (map text_of (take 3 (ancestors c)))"

definition stage_three :: "cursor \<Rightarrow> jstring option" where
  "stage_three c =
     List.find (\<lambda>t. has_size_unit t \<and> length t < 100)
       (map text_of (take 3 (filter is_element (following c))))"

definition cascade :: "cursor \<Rightarrow> jstring" where
  "cascade c =
     (case stage_one c of
        Some t \<Rightarrow> t
      | None \<Rightarrow>
          (case stage_two c of
             Some t \<Rightarrow> t
           | None \<Rightarrow> (case stage_three c of Some t \<Rightarrow> t | None \<Rightarrow> [])))"

text \<open>The slugs in the order met, each kept where it is met first.\<close>

fun keep_first :: "jstring list \<Rightarrow> jstring set \<Rightarrow> jstring list" where
  "keep_first [] seen = []"
| "keep_first (x # xs) seen =
     (if x \<in> seen then keep_first xs seen else x # keep_first xs (insert x seen))"

text \<open>
  The catalog-entry pattern as the specification words it: a \<^verbatim>\<open>/library/\<close> path whose slug
  has no colon and no \<^verbatim>\<open>/tags\<close> suffix.
\<close>

definition catalog_entry_path :: "jstring \<Rightarrow> bool" where
  "catalog_entry_path h =
     (starts_with h (js ''/library/'') \<and> \<not> js_includes (drop 9 h) (js '':'') \<and>
      \<not> starts_with (rev (drop 9 h)) (rev (js ''/tags'')))"

text \<open>
  The digest as the specification words it: a standalone token of exactly twelve
  lower-case hexadecimal characters, with no word character next to it on either side.
\<close>

definition is_lower_hex :: "jchar \<Rightarrow> bool" where
  "is_lower_hex c = ((97 \<le> c \<and> c \<le> 102) \<or> (48 \<le> c \<and> c \<le> 57))"

definition standalone_token :: "jstring \<Rightarrow> jstring \<Rightarrow> jstring \<Rightarrow> bool" where
  "standalone_token pre tok post =
     (length tok = 12 \<and> list_all is_lower_hex tok \<and>
      (pre = [] \<or> \<not> is_word_char (last pre)) \<and> (post = [] \<or> \<not> is_word_char (hd post)))"

text \<open>
  The same with the code unit before the text given (\<open>None\<close> at the start of the
  input), as the search meets it position by position.
\<close>

definition before :: "jchar option \<Rightarrow> jstring \<Rightarrow> jchar option" where
  "before p pre = (if pre = [] then p else Some (last pre))"

definition standalone_after :: "jchar option \<Rightarrow> jstring \<Rightarrow> jstring \<Rightarrow> jstring \<Rightarrow> bool" where
  "standalone_after p pre tok post =
     (length tok = 12 \<and> list_all is_lower_hex tok \<and> \<not> is_word_opt (before p pre) \<and>
      \<not> is_word_opt (first_opt post))"

definition tok_here :: "jchar option \<Rightarrow> jstring \<Rightarrow> bool" where
  "tok_here p s = (\<not> is_word_opt p \<and> 12 \<le> length s \<and> list_all is_lower_hex (take 12 s) \<and>
     \<not> is_word_opt (first_opt (drop 12 s)))"

definition digest_from :: "nat \<Rightarrow> jchar option \<Rightarrow> jstring \<Rightarrow> jstring" where
  "digest_from i p s =
     (case exec_from re_digest flags_none i p s of None \<Rightarrow> [] | Some mt \<Rightarrow> group1_text mt)"

section \<open>Example pages\<close>

text \<open>
  Collaborators that serve one document for every address; the HTML of an element is
  stood for by its text, the converter returns its input, the host finds no match for a
  pattern left to it and the selector engine throws on a selector left to it.
\<close>

definition serve :: "document \<Rightarrow> collaborators" where
  "serve doc = \<lparr>fetch = (\<lambda>u. Response 200 (Html doc)),
     encode_query = (\<lambda>q. q), inner_html = (\<lambda>n. text_of n), turndown = (\<lambda>h. Inr h),
     host_exec = (\<lambda>source f t. HostNoMatch), host_select = (\<lambda>selector d. Inl [])\<rparr>"

definition model_link :: node where
  "model_link = Element (js ''a'') [(js ''href'', js ''/library/m'')] [TextNode (js ''m'')]"

definition model_item :: node where
  "model_item = Element (js ''li'') [] [model_link]"

definition listing_page :: document where
  "listing_page = [Element (js ''body'') [] [model_item, model_item]]"

definition tag_link :: node where
  "tag_link = Element (js ''a'') [(js ''href'', js ''/library/m:x'')] [TextNode (js ''Latest'')]"

definition tags_body :: node where
  "tags_body = Element (js ''body'') [] [tag_link, tag_link]"

definition tags_page :: document where
  "tags_page = [tags_body]"

definition first_tag_cursor :: cursor where
  "first_tag_cursor = \<lparr>self = tag_link, ancestors = [tags_body], following = [tag_link]\<rparr>"

definition second_tag_cursor :: cursor where
  "second_tag_cursor = \<lparr>self = tag_link, ancestors = [tags_body], following = []\<rparr>"

definition model_record :: ModelListItem where
  "model_record = \<lparr>li_name = js ''m'', li_description = [], li_parameters = [], li_pulls = js ''0'',
     li_tags = Finite 0, li_lastUpdated = [], li_url = js ''https://ollama.com/library/m'',
     li_capabilities = None\<rparr>"

definition x_record :: ModelTag where
  "x_record = \<lparr>tag_name = js ''x'', tag_size = [], tag_digest = [], tag_modifiedAt = [],
     tag_contextWindow = None, tag_inputType = None, tag_aliases = Some [js ''latest'']\<rparr>"

definition x_variant :: ModelVariant where
  "x_variant = \<lparr>var_name = js ''x'', var_size = [], var_contextWindow = None, var_inputType = None,
     var_lastUpdated = []\<rparr>"

text \<open>An item whose first library link leads to a tag, with the link of a model after it.\<close>

definition shadowed_item :: node where
  "shadowed_item = Element (js ''li'') []
     [Element (js ''a'') [(js ''href'', js ''/library/foo:7b'')] [TextNode (js ''7b'')],
      Element (js ''a'') [(js ''href'', js ''/library/foo'')] [TextNode (js ''foo'')]]"

text \<open>A page with a readme, and a converter that throws on it.\<close>

definition readme_block :: node where
  "readme_block = Element (js ''div'') [(js ''id'', js ''display'')] [TextNode (js ''hi'')]"

definition readme_page :: document where
  "readme_page = [Element (js ''body'') [] [readme_block]]"

definition failing_converter :: collaborators where
  "failing_converter = (serve readme_page)\<lparr>turndown := (\<lambda>h. Inl (js ''Error: boom''))\<rparr>"

text \<open>
  Scenario A of the specification: one catalog entry, all of its text on one line,
  in the document the parser builds around it.
\<close>

definition scenario_text :: jstring where
  "scenario_text = js ''test-model Test description Parameters: 7b, 13b 100K Pulls 5 Tags Updated 2 hours ago''"

definition scenario_item :: node where
  "scenario_item = Element (js ''li'') []
     [Element (js ''a'') [(js ''href'', js ''/library/test-model'')] [TextNode (js ''test-model'')],
      TextNode (js '' Test description Parameters: 7b, 13b 100K Pulls 5 Tags Updated 2 hours ago'')]"

definition scenario_page :: document where
  "scenario_page = [Element (js ''html'') []
     [Element (js ''head'') [] [], Element (js ''body'') [] [scenario_item]]]"

definition scenario_record :: ModelListItem where
  "scenario_record =
     \<lparr>li_name = js ''test-model'',
      li_description = js ''Test description Parameters: 7b, 13b 100K Pulls 5 Tags Updated 2 hours ago'',
      li_parameters = [js ''7b'', js ''13b''],
      li_pulls = js ''100K'',
      li_tags = Finite 5,
      li_lastUpdated = js ''2 hours ago'',
      li_url = js ''https://ollama.com/library/test-model'',
      li_capabilities = None\<rparr>"

text \<open>The pattern of a size token followed by a Pulls or Tags label.\<close>

definition label_regex :: "jstring \<Rightarrow> regex" where
  "label_regex param = cat_list (WordB True # lits param @
     [star space, Group 1 (Alt (cat_list (lits (js ''Pulls''))) (cat_list (lits (js ''Tags''))))])"

text \<open>The pattern the source builds for the description of \<^verbatim>\<open>test-model\<close>.\<close>

definition scenario_regex :: regex where
  "scenario_regex = cat_list (lits (js ''test-model'') @
     [plus space, Group 1 (Rep 1 None False Dot), Alt (Lit 10) Eol])"

text \<open>An item whose link leads to a slug that is no pattern: an opening parenthesis.\<close>

definition broken_item :: node where
  "broken_item = Element (js ''li'') []
     [Element (js ''a'') [(js ''href'', js ''/library/('')] [TextNode (js ''x'')]]"

text \<open>A tag link followed by an element with a size and a digest.\<close>

definition digest_link :: node where
  "digest_link = Element (js ''a'') [(js ''href'', js ''/library/m:x'')] [TextNode (js ''x'')]"
definition digest_note :: node where
  "digest_note = Element (js ''span'') [] [TextNode (js ''1GB 0123456789ab'')]"
definition digest_page :: document where
  "digest_page = [digest_link, digest_note]"
definition digest_record :: ModelTag where
  "digest_record = \<lparr>tag_name = js ''x'', tag_size = js ''1GB'', tag_digest = js ''0123456789ab'',
     tag_modifiedAt = [], tag_contextWindow = None, tag_inputType = None, tag_aliases = None\<rparr>"

text \<open>
  A listing where the slug \<^verbatim>\<open>m\<close> comes twice, with different sizes, before the slug \<^verbatim>\<open>n\<close>,
  whose item holds a size and a count of pulls.
\<close>

definition seven_item :: node where
  "seven_item = Element (js ''li'') []
     [Element (js ''a'') [(js ''href'', js ''/library/m'')] [TextNode (js ''m'')], TextNode (js '' 7b'')]"

definition thirteen_item :: node where
  "thirteen_item = Element (js ''li'') []
     [Element (js ''a'') [(js ''href'', js ''/library/m'')] [TextNode (js ''m'')], TextNode (js '' 13b'')]"

definition pulls_item :: node where
  "pulls_item = Element (js ''li'') []
     [Element (js ''a'') [(js ''href'', js ''/library/n'')] [TextNode (js ''n'')],
      TextNode (js '' 13b 100K Pulls'')]"

definition pair_listing :: document where
  "pair_listing = [Element (js ''body'') [] [seven_item, thirteen_item, pulls_item]]"

definition seven_record :: ModelListItem where
  "seven_record = \<lparr>li_name = js ''m'', li_description = js ''7b'', li_parameters = [js ''7b''],
     li_pulls = js ''0'', li_tags = Finite 0, li_lastUpdated = [],
     li_url = js ''https://ollama.com/library/m'', li_capabilities = None\<rparr>"

definition pulls_record :: ModelListItem where
  "pulls_record = \<lparr>li_name = js ''n'', li_description = js ''13b 100K Pulls'',
     li_parameters = [js ''13b''], li_pulls = js ''100K'', li_tags = Finite 0, li_lastUpdated = [],
     li_url = js ''https://ollama.com/library/n'', li_capabilities = None\<rparr>"

text \<open>
  An item whose slug is a pattern outside the fragment (a look-ahead), and a host that
  finds in the text of the item what that pattern finds there.
\<close>

definition lookahead_item :: node where
  "lookahead_item = Element (js ''li'') []
     [Element (js ''a'') [(js ''href'', js ''/library/a(?!b)'')] [TextNode (js ''a'')],
      TextNode (js '' desc'')]"

definition lookahead_host :: collaborators where
  "lookahead_host = (serve [lookahead_item])\<lparr>host_exec := (\<lambda>source f t. HostMatch (Some (js ''desc'')))\<rparr>"

definition lookahead_record :: ModelListItem where
  "lookahead_record = \<lparr>li_name = js ''a(?!b)'', li_description = js ''desc'', li_parameters = [],
     li_pulls = js ''0'', li_tags = Finite 0, li_lastUpdated = [],
     li_url = js ''https://ollama.com/library/a(?!b)'', li_capabilities = None\<rparr>"

text \<open>
  A page where the tag \<^verbatim>\<open>x\<close> comes twice, each link in a block of its own with its own
  label and size.
\<close>

definition first_link :: node where
  "first_link = Element (js ''a'') [(js ''href'', js ''/library/m:x'')] [TextNode (js ''first'')]"

definition first_block :: node where
  "first_block = Element (js ''div'') [] [first_link, TextNode (js '' 1GB'')]"

definition latest_link :: node where
  "latest_link = Element (js ''a'') [(js ''href'', js ''/library/m:x'')] [TextNode (js ''latest'')]"

definition latest_block :: node where
  "latest_block = Element (js ''div'') [] [latest_link, TextNode (js '' 2GB'')]"

definition twice_body :: node where
  "twice_body = Element (js ''body'') [] [first_block, latest_block]"

definition twice_page :: document where
  "twice_page = [twice_body]"

definition first_cursor :: cursor where
  "first_cursor = \<lparr>self = first_link, ancestors = [first_block, twice_body],
     following = [TextNode (js '' 1GB'')]\<rparr>"

definition latest_cursor :: cursor where
  "latest_cursor = \<lparr>self = latest_link, ancestors = [latest_block, twice_body],
     following = [TextNode (js '' 2GB'')]\<rparr>"

definition first_record :: ModelTag where
  "first_record = \<lparr>tag_name = js ''x'', tag_size = js ''1GB'', tag_digest = [], tag_modifiedAt = [],
     tag_contextWindow = None, tag_inputType = None, tag_aliases = None\<rparr>"

definition first_variant :: ModelVariant where
  "first_variant = \<lparr>var_name = js ''x'', var_size = js ''1GB'', var_contextWindow = None,
     var_inputType = None, var_lastUpdated = []\<rparr>"

text \<open>
  A page with four tag links, one for each way the cascade can end: the next sibling
  names a size; the parent does, in a short text; neither does (the text of the parent is
  long), and the second element after the link does; nothing does.
\<close>

definition sibling_link :: node where
  "sibling_link = Element (js ''a'') [(js ''href'', js ''/library/m:a'')] [TextNode (js ''a'')]"

definition sibling_note :: node where
  "sibling_note = Element (js ''span'') [] [TextNode (js ''1GB'')]"

definition sibling_block :: node where
  "sibling_block = Element (js ''div'') [] [sibling_link, sibling_note]"

definition parent_link :: node where
  "parent_link = Element (js ''a'') [(js ''href'', js ''/library/m:b'')] [TextNode (js ''b'')]"

definition parent_block :: node where
  "parent_block = Element (js ''div'') [] [parent_link, TextNode (js '' 2GB'')]"

definition scan_link :: node where
  "scan_link = Element (js ''a'') [(js ''href'', js ''/library/m:c'')] [TextNode (js ''c'')]"

definition plain_note :: node where
  "plain_note = Element (js ''span'') [] [TextNode (js ''none'')]"

definition scan_note :: node where
  "scan_note = Element (js ''span'') [] [TextNode (js ''3GB'')]"

definition filler_text :: jstring where
  "filler_text = replicate 200 120"

definition filler :: node where
  "filler = TextNode filler_text"

definition scan_block :: node where
  "scan_block = Element (js ''div'') [] [scan_link, plain_note, scan_note, filler]"

definition bare_link :: node where
  "bare_link = Element (js ''a'') [(js ''href'', js ''/library/m:d'')] [TextNode (js ''d'')]"

definition bare_block :: node where
  "bare_block = Element (js ''div'') [] [bare_link]"

definition cascade_body :: node where
  "cascade_body = Element (js ''body'') [] [sibling_block, parent_block, scan_block, bare_block]"

definition cascade_page :: document where
  "cascade_page = [cascade_body]"

definition sibling_cursor :: cursor where
  "sibling_cursor = \<lparr>self = sibling_link, ancestors = [sibling_block, cascade_body],
     following = [sibling_note]\<rparr>"

definition parent_cursor :: cursor where
  "parent_cursor = \<lparr>self = parent_link, ancestors = [parent_block, cascade_body],
     following = [TextNode (js '' 2GB'')]\<rparr>"

definition scan_cursor :: cursor where
  "scan_cursor = \<lparr>self = scan_link, ancestors = [scan_block, cascade_body],
     following = [plain_note, scan_note, filler]\<rparr>"

definition bare_cursor :: cursor where
  "bare_cursor = \<lparr>self = bare_link, ancestors = [bare_block, cascade_body], following = []\<rparr>"

section \<open>Size tokens and labels\<close>




text \<open>
  Two states of the matcher are a segment apart when the input consumed between them
  consists of characters of a given kind; a pattern consumes only such characters when
  each of its atoms does.
\<close>

definition seg :: "(jchar \<Rightarrow> bool) \<Rightarrow> mstate \<Rightarrow> mstate \<Rightarrow> bool" where
  "seg P x y = (\<exists>w. fst (snd x) = w @ fst (snd y) \<and> list_all P w)"

fun chars_ok :: "(jchar \<Rightarrow> bool) \<Rightarrow> flags \<Rightarrow> regex \<Rightarrow> bool" where
  "chars_ok P f (Lit a) = (\<forall>c. canon f a = canon f c \<longrightarrow> P c)"
| "chars_ok P f Dot = (\<forall>c. dotAll f \<or> \<not> is_line_terminator c \<longrightarrow> P c)"
| "chars_ok P f (Class neg items) = (\<forall>c. list_ex (\<lambda>it. citem_match f it c) items \<noteq> neg \<longrightarrow> P c)"
| "chars_ok P f (Cat a b) = (chars_ok P f a \<and> chars_ok P f b)"
| "chars_ok P f (Alt a b) = (chars_ok P f a \<and> chars_ok P f b)"
| "chars_ok P f (Group n a) = chars_ok P f a"
| "chars_ok P f (Rep lo hi g a) = chars_ok P f a"
| "chars_ok P f r = True"



section \<open>The patterns are those of the source\<close>

text \<open>
  Each pattern above is what the constructor compiles from the text of the pattern in
  the source.
\<close>

lemma re_keyword_source:
  "RegExp ([92] @ js ''btools'' @ [92] @ js ''b'') = Compiled (re_keyword (js ''tools''))"
  by code_simp

lemma re_param_source:
  "RegExp ([92] @ js ''b'' @ [92] @ js ''d+'' @ [92] @ js ''.?'' @ [92] @ js ''d*[bmk]'' @ [92] @ js ''b'') = Compiled re_param"
  by code_simp

lemma re_pulls_source:
  "RegExp (js ''('' @ [92] @ js ''d+'' @ [92] @ js ''.?'' @ [92] @ js ''d*[KMB]?)'' @ [92] @ js ''s*Pulls'') = Compiled re_pulls"
  by code_simp

lemma re_tags_source:
  "RegExp (js ''('' @ [92] @ js ''d+)'' @ [92] @ js ''s*Tags'') = Compiled re_tags"
  by code_simp

lemma re_updated_source:
  "RegExp (js ''Updated'' @ [92] @ js ''s+(.+?)(?:'' @ [92] @ js ''n|$)'') = Compiled re_updated"
  by code_simp

lemma re_downloads_source:
  "RegExp (js ''^('' @ [92] @ js ''d+'' @ [92] @ js ''.?'' @ [92] @ js ''d*[KMB]?)'' @ [92] @ js ''s*Downloads?$'') = Compiled re_downloads"
  by code_simp

lemma re_tag_suffix_source:
  "RegExp (js '':([^/]+)$'') = Compiled re_tag_suffix"
  by code_simp

lemma re_size_source:
  "RegExp (js ''('' @ [92] @ js ''d+'' @ [92] @ js ''.?'' @ [92] @ js ''d*'' @ [92] @ js ''s*[GMT]B)'') = Compiled re_size"
  by code_simp

lemma re_context_source:
  "RegExp (js ''('' @ [92] @ js ''d+K)'' @ [92] @ js ''s*context'' @ [92] @ js ''s*window'') = Compiled re_context"
  by code_simp

lemma re_variant_updated_source:
  "RegExp ([183, 92] @ js ''s*(.+?)$'') = Compiled re_variant_updated"
  by code_simp

lemma re_digest_source:
  "RegExp ([92] @ js ''b([a-f0-9]{12})'' @ [92] @ js ''b'') = Compiled re_digest"
  by code_simp

lemma re_date_ago_source:
  "RegExp (js ''('' @ [92] @ js ''d+'' @ [92] @ js ''s*(?:hour|day|week|month|year)s?'' @ [92] @ js ''s*ago)'') = Compiled re_date_ago"
  by code_simp

lemma re_date_bullet_source:
  "RegExp ([8226, 92] @ js ''s*([^'' @ [8226] @ js '']+?)'' @ [92] @ js ''s*$'') = Compiled re_date_bullet"
  by code_simp

lemma re_date_compact_source:
  "RegExp (js ''('' @ [92] @ js ''d{1,2}'' @ [92] @ js ''s*'' @ [92] @ js ''w+'' @ [92] @ js ''s*ago)'') = Compiled re_date_compact"
  by code_simp

section \<open>Evaluation\<close>

lemma rep_numeral:
  "rep (numeral k) step g lo hi x =
     (if hi = Some 0 then [x]
      else if 0 < lo then rep_each (pred_numeral k) step g lo hi x (step x)
      else if g then rep_each (pred_numeral k) step g lo hi x (step x) @ [x]
      else x # rep_each (pred_numeral k) step g lo hi x (step x))"
  by (simp only: numeral_eq_Suc rep.simps)

lemma to_double_small: "n < 9007199254740992 \<Longrightarrow> to_double n = Finite n"
proof -
  assume n: "n < 9007199254740992"
  have "(9007199254740992::nat) \<le> 2 ^ 1024" by simp
  with n have "\<not> (2::nat) ^ 1024 \<le> n" by linarith
  with n show ?thesis by (simp add: to_double_def bits_over.simps)
qed

lemma to_double_ties:
  "to_double 9007199254740993 = Finite 9007199254740992 \<and>
   to_double 9007199254740995 = Finite 9007199254740996"
  by (simp add: to_double_def bits_over.simps[of 9007199254740993]
      bits_over.simps[of 9007199254740995] bits_over.simps[of 4503599627370496]
      bits_over.simps[of 4503599627370497])

lemma parseInt_ties:
  "parseInt (js ''9007199254740993'') = Finite 9007199254740992"
  by (simp add: parseInt_def js_def to_double_ties)

lemma pick_sublist: "set (pick sel i xs) \<subseteq> set xs"
  by (induction xs arbitrary: i) auto

lemma pick_all: "pick (\<lambda>i. True) i xs = xs"
  by (induction xs arbitrary: i) auto

lemma match_source_compiled:
  "RegExp source = Compiled r \<Longrightarrow>
   match_source env source f t = Inr (map_option group1 (exec r f t))"
  by (simp add: match_source_def)

lemma collect_parameters_step:
  "RegExp (param_regex_source param) = Compiled r \<Longrightarrow>
   collect_parameters env t (param # rest) ps =
     (if \<not> regex_test r flags_i t \<and> toLowerCase param \<notin> set ps
      then collect_parameters env t rest (ps @ [toLowerCase param])
      else collect_parameters env t rest ps)"
  by (simp add: match_source_compiled regex_test_def)

lemmas char_defs = is_digit_def is_upper_def is_lower_def is_space_def is_word_char_def
  upper_char_def lower_char_def is_line_terminator_def canon_def

lemmas regex_defs = flags_i_def flags_none_def flags_s_def lits_def digit_def space_def wordc_def
  star_def plus_def opt_def group1_def group1_text_def exec_def regex_test_def match_all_def
  rep_numeral

lemmas string_defs = js_def toLowerCase_def trim_def strip_spaces_def

lemmas dom_defs = has_tag_def has_id_def href_starts_def href_contains_def href_of_def
  descendants_def text_of_all_def

lemmas re_defs = re_keyword_def re_param_def re_count_def re_pulls_def re_tags_def re_updated_def
  re_downloads_def re_tag_suffix_def re_size_def re_context_def re_variant_updated_def
  re_digest_def re_date_ago_def re_date_bullet_def re_date_compact_def

lemmas compile_defs = RegExp_def next_token_def lex_escape_def lex_quant_def mk_alt_def mk_seq_def
  long_bounds_def

lemmas eval_defs = re_defs regex_defs char_defs string_defs dom_defs

section \<open>The loops\<close>

lemma listing_item_name: "listing_item env li href modelName = Inr item \<Longrightarrow> li_name item = modelName"
  by (auto simp: listing_item_def split: sum.splits)

lemma listing_loop_distinct:
  "listing_loop env lis seen acc = Inr ms \<Longrightarrow> distinct (map li_name acc) \<Longrightarrow>
   set (map li_name acc) \<subseteq> seen \<Longrightarrow> distinct (map li_name ms)"
proof (induction lis arbitrary: seen acc)
  case Nil
  then show ?case by simp
next
  case (Cons li lis)
  show ?case
  proof (cases "listing_candidate li")
    case None
    with Cons show ?thesis by simp
  next
    case (Some cand)
    obtain modelName href where cand: "cand = (modelName, href)" by (cases cand)
    show ?thesis
    proof (cases "modelName \<in> seen")
      case True
      with Cons Some cand show ?thesis by simp
    next
      case False
      with Cons.prems(1) Some cand obtain item where
        item: "listing_item env li href modelName = Inr item" and
        rest: "listing_loop env lis (insert modelName seen) (acc @ [item]) = Inr ms"
        by (auto split: sum.splits)
      have nm: "li_name item = modelName" using item by (rule listing_item_name)
      have "distinct (map li_name (acc @ [item]))"
        using Cons.prems(2,3) False nm by auto
      moreover have "set (map li_name (acc @ [item])) \<subseteq> insert modelName seen"
        using Cons.prems(3) nm by auto
      ultimately show ?thesis using Cons.IH[OF rest] by blast
    qed
  qed
qed

lemma variants_loop_distinct:
  "distinct (map var_name acc) \<Longrightarrow> set (map var_name acc) \<subseteq> seen \<Longrightarrow>
   distinct (map var_name (variants_loop cs seen acc))"
proof (induction cs arbitrary: seen acc)
  case Nil
  then show ?case by simp
next
  case (Cons c cs)
  show ?case
  proof (cases "tag_of_href (href_of (self c))")
    case None
    with Cons show ?thesis by simp
  next
    case (Some tagName)
    show ?thesis
    proof (cases "tagName \<in> seen")
      case True
      with Cons Some show ?thesis by simp
    next
      case False
      have "distinct (map var_name (acc @ [variant_of tagName c]))"
        using Cons.prems False by (auto simp: variant_of_def)
      moreover have "set (map var_name (acc @ [variant_of tagName c])) \<subseteq> insert tagName seen"
        using Cons.prems by (auto simp: variant_of_def)
      ultimately show ?thesis using Cons.IH Some False by simp
    qed
  qed
qed

lemma tags_loop_distinct:
  "distinct (map tag_name acc) \<Longrightarrow> set (map tag_name acc) \<subseteq> seen \<Longrightarrow>
   distinct (map tag_name (tags_loop cs seen acc))"
proof (induction cs arbitrary: seen acc)
  case Nil
  then show ?case by simp
next
  case (Cons c cs)
  show ?case
  proof (cases "tag_of_href (href_of (self c))")
    case None
    with Cons show ?thesis by simp
  next
    case (Some tagName)
    show ?thesis
    proof (cases "tagName \<in> seen")
      case True
      with Cons Some show ?thesis by simp
    next
      case False
      have "distinct (map tag_name (acc @ [tag_record tagName c]))"
        using Cons.prems False by (auto simp: tag_record_def)
      moreover have "set (map tag_name (acc @ [tag_record tagName c])) \<subseteq> insert tagName seen"
        using Cons.prems by (auto simp: tag_record_def)
      ultimately show ?thesis using Cons.IH Some False by simp
    qed
  qed
qed

lemma tags_loop_first:
  "t \<in> set (tags_loop cs seen acc) \<Longrightarrow>
   t \<in> set acc \<or>
   (tag_name t \<notin> seen \<and>
    (\<exists>c. List.find (\<lambda>c. tag_of_href (href_of (self c)) = Some (tag_name t)) cs = Some c \<and>
         t = tag_record (tag_name t) c))"
proof (induction cs arbitrary: seen acc)
  case Nil
  then show ?case by simp
next
  case (Cons c cs)
  show ?case
  proof (cases "tag_of_href (href_of (self c))")
    case None
    with Cons.prems have "t \<in> set (tags_loop cs seen acc)" by simp
    from Cons.IH[OF this] None show ?thesis by auto
  next
    case (Some tagName)
    show ?thesis
    proof (cases "tagName \<in> seen")
      case True
      with Cons.prems Some have "t \<in> set (tags_loop cs seen acc)" by simp
      from Cons.IH[OF this] Some True show ?thesis by auto
    next
      case False
      with Cons.prems Some have "t \<in> set (tags_loop cs (insert tagName seen) (acc @ [tag_record tagName c]))"
        by simp
      from Cons.IH[OF this] consider (old) "t \<in> set acc" | (here) "t = tag_record tagName c"
        | (later) "tag_name t \<notin> insert tagName seen"
            "\<exists>c'. List.find (\<lambda>c. tag_of_href (href_of (self c)) = Some (tag_name t)) cs = Some c' \<and>
                  t = tag_record (tag_name t) c'"
        by auto
      then show ?thesis
      proof cases
        case old
        then show ?thesis by simp
      next
        case here
        then have "tag_name t = tagName" by (simp add: tag_record_def)
        with here Some False show ?thesis by simp
      next
        case later
        then show ?thesis using Some by auto
      qed
    qed
  qed
qed

lemma tags_loop_names:
  "map tag_name (tags_loop cs seen acc) =
   map tag_name acc @ keep_first (List.map_filter (\<lambda>c. tag_of_href (href_of (self c))) cs) seen"
proof (induction cs arbitrary: seen acc)
  case Nil
  then show ?case by (simp add: List.map_filter_simps)
next
  case (Cons c cs)
  show ?case
  proof (cases "tag_of_href (href_of (self c))")
    case None
    then show ?thesis using Cons.IH by (simp add: List.map_filter_simps)
  next
    case (Some tagName)
    then show ?thesis using Cons.IH
      by (cases "tagName \<in> seen") (simp_all add: List.map_filter_simps tag_record_def)
  qed
qed

lemma variants_loop_first:
  "v \<in> set (variants_loop cs seen acc) \<Longrightarrow>
   v \<in> set acc \<or>
   (var_name v \<notin> seen \<and>
    (\<exists>c. List.find (\<lambda>c. tag_of_href (href_of (self c)) = Some (var_name v)) cs = Some c \<and>
         v = variant_of (var_name v) c))"
proof (induction cs arbitrary: seen acc)
  case Nil
  then show ?case by simp
next
  case (Cons c cs)
  show ?case
  proof (cases "tag_of_href (href_of (self c))")
    case None
    with Cons.prems have "v \<in> set (variants_loop cs seen acc)" by simp
    from Cons.IH[OF this] None show ?thesis by auto
  next
    case (Some tagName)
    show ?thesis
    proof (cases "tagName \<in> seen")
      case True
      with Cons.prems Some have "v \<in> set (variants_loop cs seen acc)" by simp
      from Cons.IH[OF this] Some True show ?thesis by auto
    next
      case False
      with Cons.prems Some have
        "v \<in> set (variants_loop cs (insert tagName seen) (acc @ [variant_of tagName c]))"
        by simp
      from Cons.IH[OF this] consider (old) "v \<in> set acc" | (here) "v = variant_of tagName c"
        | (later) "var_name v \<notin> insert tagName seen"
            "\<exists>c'. List.find (\<lambda>c. tag_of_href (href_of (self c)) = Some (var_name v)) cs = Some c' \<and>
                  v = variant_of (var_name v) c'"
        by auto
      then show ?thesis
      proof cases
        case old
        then show ?thesis by simp
      next
        case here
        then have "var_name v = tagName" by (simp add: variant_of_def)
        with here Some False show ?thesis by simp
      next
        case later
        then show ?thesis using Some by auto
      qed
    qed
  qed
qed

lemma variants_loop_names:
  "map var_name (variants_loop cs seen acc) =
   map var_name acc @ keep_first (List.map_filter (\<lambda>c. tag_of_href (href_of (self c))) cs) seen"
proof (induction cs arbitrary: seen acc)
  case Nil
  then show ?case by (simp add: List.map_filter_simps)
next
  case (Cons c cs)
  show ?case
  proof (cases "tag_of_href (href_of (self c))")
    case None
    then show ?thesis using Cons.IH by (simp add: List.map_filter_simps)
  next
    case (Some tagName)
    then show ?thesis using Cons.IH
      by (cases "tagName \<in> seen") (simp_all add: List.map_filter_simps variant_of_def)
  qed
qed

lemma listing_loop_first:
  "listing_loop env lis seen acc = Inr ms \<Longrightarrow> r \<in> set ms \<Longrightarrow>
   r \<in> set acc \<or>
   (li_name r \<notin> seen \<and>
    (\<exists>li href. List.find (\<lambda>li. map_option fst (listing_candidate li) = Some (li_name r)) lis = Some li \<and>
       listing_candidate li = Some (li_name r, href) \<and>
       listing_item env li href (li_name r) = Inr r))"
proof (induction lis arbitrary: seen acc)
  case Nil
  then show ?case by simp
next
  case (Cons li lis)
  show ?case
  proof (cases "listing_candidate li")
    case None
    with Cons.prems have "listing_loop env lis seen acc = Inr ms" by simp
    from Cons.IH[OF this Cons.prems(2)] None show ?thesis by auto
  next
    case (Some cand)
    obtain modelName href where cand: "cand = (modelName, href)" by (cases cand)
    show ?thesis
    proof (cases "modelName \<in> seen")
      case True
      with Cons.prems Some cand have "listing_loop env lis seen acc = Inr ms" by simp
      from Cons.IH[OF this Cons.prems(2)] Some cand True show ?thesis by auto
    next
      case False
      with Cons.prems(1) Some cand obtain item where
        item: "listing_item env li href modelName = Inr item" and
        rest: "listing_loop env lis (insert modelName seen) (acc @ [item]) = Inr ms"
        by (auto split: sum.splits)
      have nm: "li_name item = modelName" using item by (rule listing_item_name)
      from Cons.IH[OF rest Cons.prems(2)] consider (old) "r \<in> set acc" | (here) "r = item"
        | (later) "li_name r \<notin> insert modelName seen"
            "\<exists>li' href'. List.find (\<lambda>li. map_option fst (listing_candidate li) = Some (li_name r)) lis
                 = Some li' \<and>
               listing_candidate li' = Some (li_name r, href') \<and>
               listing_item env li' href' (li_name r) = Inr r"
        by auto
      then show ?thesis
      proof cases
        case old
        then show ?thesis by simp
      next
        case here
        with nm item Some cand False show ?thesis by simp
      next
        case later
        then show ?thesis using Some cand by auto
      qed
    qed
  qed
qed

lemma tags_loop_keeps: "set acc \<subseteq> set (tags_loop cs seen acc)"
proof (induction cs arbitrary: seen acc)
  case Nil
  then show ?case by simp
next
  case (Cons c cs)
  show ?case
  proof (cases "tag_of_href (href_of (self c))")
    case None
    then show ?thesis using Cons.IH by simp
  next
    case (Some tagName)
    show ?thesis
    proof (cases "tagName \<in> seen")
      case True
      then show ?thesis using Some Cons.IH by simp
    next
      case False
      have "set (acc @ [tag_record tagName c]) \<subseteq>
            set (tags_loop cs (insert tagName seen) (acc @ [tag_record tagName c]))"
        by (rule Cons.IH)
      then show ?thesis using Some False by auto
    qed
  qed
qed

lemma tags_loop_complete:
  "List.find (\<lambda>c. tag_of_href (href_of (self c)) = Some n) cs = Some c \<Longrightarrow> n \<notin> seen \<Longrightarrow>
   tag_record n c \<in> set (tags_loop cs seen acc)"
proof (induction cs arbitrary: seen acc)
  case Nil
  then show ?case by simp
next
  case (Cons c0 cs)
  show ?case
  proof (cases "tag_of_href (href_of (self c0))")
    case None
    with Cons.prems have "List.find (\<lambda>c. tag_of_href (href_of (self c)) = Some n) cs = Some c"
      by simp
    from Cons.IH[OF this Cons.prems(2)] None show ?thesis by simp
  next
    case (Some tagName)
    show ?thesis
    proof (cases "tagName = n")
      case True
      with Some Cons.prems have c: "c = c0" by simp
      have "tag_record n c0 \<in> set (acc @ [tag_record n c0])" by simp
      then have "tag_record n c0 \<in> set (tags_loop cs (insert n seen) (acc @ [tag_record n c0]))"
        using tags_loop_keeps by blast
      with Some True Cons.prems(2) c show ?thesis by simp
    next
      case False
      with Some Cons.prems have f: "List.find (\<lambda>c. tag_of_href (href_of (self c)) = Some n) cs = Some c"
        by simp
      show ?thesis
      proof (cases "tagName \<in> seen")
        case True
        with Some Cons.IH[OF f Cons.prems(2)] show ?thesis by simp
      next
        case notin: False
        from False Cons.prems(2) have "n \<notin> insert tagName seen" by simp
        from Cons.IH[OF f this] Some notin show ?thesis by simp
      qed
    qed
  qed
qed

text \<open>What an operation that returns has gone through.\<close>

lemma getModelTags_links:
  assumes "getModelTags env modelName = Inr tags"
  shows "\<exists>doc links. page_of (fetch env (tags_url modelName)) = Inr doc \<and>
           tag_links env modelName doc = Inr links \<and> tags = tags_loop links {} []"
  using assms by (auto simp: getModelTags_def tags_of_page_def split: sum.splits)

lemma getModelTags_records:
  assumes "getModelTags env modelName = Inr tags" and "t \<in> set tags"
  shows "\<exists>doc links c. page_of (fetch env (tags_url modelName)) = Inr doc \<and>
           tag_links env modelName doc = Inr links \<and>
           List.find (\<lambda>c. tag_of_href (href_of (self c)) = Some (tag_name t)) links = Some c \<and>
           c \<in> set links \<and>
           tag_of_href (href_of (self c)) = Some (tag_name t) \<and>
           t = tag_record (tag_name t) c"
proof -
  from getModelTags_links[OF assms(1)] obtain doc links where
    doc: "page_of (fetch env (tags_url modelName)) = Inr doc"
    and links: "tag_links env modelName doc = Inr links"
    and tags: "tags = tags_loop links {} []"
    by blast
  from assms(2) tags have "t \<in> set (tags_loop links {} [])" by simp
  from tags_loop_first[OF this] obtain c where
    c: "List.find (\<lambda>c. tag_of_href (href_of (self c)) = Some (tag_name t)) links = Some c"
      "t = tag_record (tag_name t) c"
    by auto
  from c(1) have "c \<in> set links" "tag_of_href (href_of (self c)) = Some (tag_name t)"
    by (auto simp: find_Some_iff)
  with doc links c show ?thesis by blast
qed

lemma getModelListing_loop:
  assumes "getModelListing env options = Inr ms"
  shows "\<exists>doc. page_of (fetch env (listing_url env options)) = Inr doc \<and>
           listing_loop env (containers doc) {} [] = Inr ms"
  using assms by (auto simp: getModelListing_def listing_of_page_def split: sum.splits)

section \<open>The cascade\<close>

lemma has_size_unit_nonempty: "has_size_unit t \<Longrightarrow> t \<noteq> []"
  by (auto simp: has_size_unit_def js_def)

lemma find_map_text:
  "List.find P (map f xs) = map_option f (List.find (\<lambda>x. P (f x)) xs)"
  by (induction xs) auto

lemma walk_up_find:
  "walk_up up d =
     (case List.find (\<lambda>n. has_size_unit (text_of n) \<and> length (text_of n) < 200) (take d up) of
        None \<Rightarrow> [] | Some n \<Rightarrow> text_of n)"
proof (induction up arbitrary: d)
  case Nil
  then show ?case by simp
next
  case (Cons container up)
  show ?case
  proof (cases d)
    case 0
    then show ?thesis by simp
  next
    case (Suc d')
    then show ?thesis using Cons.IH[of d'] by simp
  qed
qed

lemma scan_next_find:
  "scan_next sibs i =
     (case List.find (\<lambda>n. has_size_unit (text_of n) \<and> length (text_of n) < 100) (take (3 - i) sibs) of
        None \<Rightarrow> [] | Some n \<Rightarrow> text_of n)"
proof (induction sibs arbitrary: i)
  case Nil
  then show ?case by simp
next
  case (Cons current after)
  show ?case
  proof (cases "i < 3")
    case True
    then obtain k where k: "3 - i = Suc k" by (cases "3 - i") auto
    then have k': "2 - i = k" by arith
    show ?thesis using True k Cons.IH[of "i + 1"] by (simp add: k')
  next
    case False
    then show ?thesis by simp
  qed
qed

lemma tag_text_cascade: "tag_text c = cascade c"
proof -
  have s1: "sibling_text c = (case stage_one c of None \<Rightarrow> [] | Some t \<Rightarrow> t)"
    by (simp add: sibling_text_def stage_one_def split: option.splits)
  have n1: "stage_one c = Some t \<Longrightarrow> t \<noteq> []" for t
    by (auto simp: stage_one_def has_size_unit_nonempty split: option.splits if_splits)
  have s2: "walk_up (ancestors c) 3 = (case stage_two c of None \<Rightarrow> [] | Some t \<Rightarrow> t)"
    by (simp add: walk_up_find stage_two_def find_map_text split: option.splits)
  have n2: "t \<noteq> []" if "stage_two c = Some t" for t
  proof -
    from that have "has_size_unit t" unfolding stage_two_def find_Some_iff by auto
    then show ?thesis by (rule has_size_unit_nonempty)
  qed
  have s3: "scan_next (filter is_element (following c)) 0 =
            (case stage_three c of None \<Rightarrow> [] | Some t \<Rightarrow> t)"
    by (simp add: scan_next_find stage_three_def find_map_text split: option.splits)
  show ?thesis
    unfolding tag_text_def cascade_def s1 s2 s3
    by (auto split: option.splits dest: n1 n2)
qed

lemma empty_text_fields:
  "size_of [] = [] \<and> digest_of [] = [] \<and> modifiedAt_of [] = [] \<and>
   contextWindow_of [] = None \<and> inputType_of [] = None"
  by (simp add: size_of_def digest_of_def modifiedAt_of_def datePatterns_def contextWindow_of_def
      inputType_of_def re_size_def re_digest_def re_date_ago_def re_date_bullet_def
      re_date_compact_def re_context_def re_keyword_def regex_defs char_defs string_defs)

section \<open>The containers of the listing\<close>

lemma replace_first_prefix:
  "starts_with h p \<Longrightarrow> replace_first h p [] = drop (length p) h"
  by (cases h) (auto split: if_splits)

lemma listing_candidate_iff:
  "listing_candidate li = Some (slug, href) \<longleftrightarrow>
     (\<exists>link. List.find (\<lambda>n. has_tag (js ''a'') n \<and> href_starts (js ''/library/'') n) (descendants li)
               = Some link \<and>
             attr (js ''href'') link = Some href \<and>
             \<not> js_includes href (js ''/tags'') \<and> \<not> js_includes href (js '':'') \<and>
             slug = drop 9 href)"
proof -
  have len: "length (js ''/library/'') = 9" by (simp add: js_def)
  have pre: "starts_with href (js ''/library/'') \<Longrightarrow>
      replace_first href (js ''/library/'') [] = drop 9 href" for href
    using replace_first_prefix[of href "js ''/library/''"] len by simp
  have st: "List.find (\<lambda>n. has_tag (js ''a'') n \<and> href_starts (js ''/library/'') n) (descendants li)
               = Some link \<Longrightarrow> attr (js ''href'') link = Some href \<Longrightarrow>
            starts_with href (js ''/library/'')" for link href
    by (auto simp: find_Some_iff href_starts_def)
  have ne: "\<not> starts_with [] (js ''/library/'')"
    by (simp add: js_def)
  show ?thesis
    unfolding listing_candidate_def first_library_link_def
    by (auto split: option.splits simp: pre ne dest!: st)
qed

lemma listing_loop_names:
  "listing_loop env lis seen acc = Inr ms \<Longrightarrow>
   map li_name ms = map li_name acc @ keep_first (map fst (List.map_filter listing_candidate lis)) seen"
proof (induction lis arbitrary: seen acc)
  case Nil
  then show ?case by (simp add: List.map_filter_simps)
next
  case (Cons li lis)
  show ?case
  proof (cases "listing_candidate li")
    case None
    with Cons show ?thesis by (simp add: List.map_filter_simps)
  next
    case (Some cand)
    obtain modelName href where cand: "cand = (modelName, href)" by (cases cand)
    show ?thesis
    proof (cases "modelName \<in> seen")
      case True
      with Cons Some cand show ?thesis by (simp add: List.map_filter_simps)
    next
      case False
      with Cons.prems Some cand obtain item where
        item: "listing_item env li href modelName = Inr item" and
        rest: "listing_loop env lis (insert modelName seen) (acc @ [item]) = Inr ms"
        by (auto split: sum.splits)
      have nm: "li_name item = modelName" using item by (rule listing_item_name)
      show ?thesis using Cons.IH[OF rest] Some cand False nm
        by (simp add: List.map_filter_simps)
    qed
  qed
qed

section \<open>The example pages, evaluated\<close>

lemma page_of_serve: "page_of (fetch (serve doc) u) = Inr doc"
  by (simp add: page_of_def serve_def response_ok_def)

lemma model_item_text: "text_of model_item = js ''m''"
  by (simp add: model_item_def model_link_def)

lemma model_item_candidate: "listing_candidate model_item = Some (js ''m'', js ''/library/m'')"
  by (simp add: listing_candidate_def first_library_link_def model_item_def model_link_def eval_defs)

lemma model_item_description: "description_of env model_item (js ''m'') = Inr []"
  by (simp add: description_of_def match_source_def model_item_text model_item_def model_link_def
      description_regex_source_def compile_defs eval_defs)

lemma m_parameters: "parameters_of env (js ''m'') = Inr []"
  by (simp add: parameters_of_def eval_defs)

lemma m_fields:
  "pulls_of (js ''m'') = js ''0'' \<and> tags_of (js ''m'') = Finite 0 \<and> updated_of (js ''m'') = [] \<and>
   capabilities_of (js ''m'') = []"
  by (simp add: pulls_of_def tags_of_def updated_of_def capabilities_of_def eval_defs)

lemma model_item_record: "listing_item env model_item (js ''/library/m'') (js ''m'') = Inr model_record"
  by (simp add: listing_item_def model_item_description model_item_text m_parameters m_fields
      model_record_def; simp add: baseUrl_def js_def)

lemma listing_page_items: "containers listing_page = [model_item, model_item]"
  by (simp add: containers_def listing_page_def model_item_def model_link_def has_tag_def js_def)

lemma listing_page_result: "getModelListing (serve listing_page) None = Inr [model_record]"
  by (simp add: getModelListing_def page_of_serve listing_of_page_def listing_page_items
      model_item_candidate model_item_record)

lemma tag_link_name: "tag_of_href (href_of tag_link) = Some (js ''x'')"
  by (simp add: tag_of_href_def tag_link_def eval_defs)

lemma tags_page_cursors: "cursors [] tags_page =
   [\<lparr>self = tags_body, ancestors = [], following = []\<rparr>, first_tag_cursor, second_tag_cursor]"
  by (simp add: tags_page_def tags_body_def tag_link_def first_tag_cursor_def second_tag_cursor_def)

lemma tags_page_links: "tag_links env (js ''m'') tags_page = Inr [first_tag_cursor, second_tag_cursor]"
  by (simp add: tag_links_def tags_page_cursors; simp add: first_tag_cursor_def second_tag_cursor_def tags_body_def tag_link_def eval_defs)

lemma tags_page_variant_links: "variant_links tags_page = [first_tag_cursor, second_tag_cursor]"
  by (simp add: variant_links_def tags_page_cursors; simp add: first_tag_cursor_def second_tag_cursor_def tags_body_def tag_link_def eval_defs)

lemma tags_body_text: "text_of tags_body = js ''LatestLatest''"
  by (simp add: tags_body_def tag_link_def js_def)

lemma tag_link_text: "text_of tag_link = js ''Latest''"
  by (simp add: tag_link_def)

lemma no_unit: "has_size_unit (js ''LatestLatest'') = False \<and> has_size_unit (js ''Latest'') = False"
  by (simp add: has_size_unit_def js_def)

lemma first_tag_stages:
  "stage_one first_tag_cursor = None \<and> stage_two first_tag_cursor = None \<and>
   stage_three first_tag_cursor = None"
  by (simp add: stage_one_def stage_two_def stage_three_def first_tag_cursor_def tags_body_text
      tag_link_text no_unit; simp add: tag_link_def)

lemma first_tag_text: "tag_text first_tag_cursor = []"
  by (simp add: tag_text_cascade cascade_def first_tag_stages)

lemma first_tag_record: "tag_record (js ''x'') first_tag_cursor = x_record"
  by (simp add: tag_record_def first_tag_text empty_text_fields x_record_def aliases_of_def; simp add: first_tag_cursor_def tag_link_text, simp add: eval_defs)

lemma tags_page_result: "getModelTags (serve tags_page) (js ''m'') = Inr [x_record]"
  by (simp add: getModelTags_def page_of_serve tags_of_page_def tags_page_links; simp add: first_tag_cursor_def second_tag_cursor_def tag_link_name
        first_tag_record[unfolded first_tag_cursor_def])

lemma first_variant_text: "variant_text first_tag_cursor = js ''LatestLatest''"
  by (simp add: variant_text_def first_tag_cursor_def tags_body_text; simp add: tag_link_def tags_body_def has_tag_def js_def)

lemma variant_fields:
  "size_of (js ''LatestLatest'') = [] \<and> contextWindow_of (js ''LatestLatest'') = None \<and>
   inputType_of (js ''LatestLatest'') = None \<and> variant_updated (js ''LatestLatest'') = []"
  by (simp add: size_of_def contextWindow_of_def inputType_of_def variant_updated_def eval_defs)

lemma tags_page_variants: "variants_loop (variant_links tags_page) {} [] = [x_variant]"
  by (simp add: tags_page_variant_links; simp add: first_tag_cursor_def second_tag_cursor_def tag_link_name variant_of_def
        first_variant_text[unfolded first_tag_cursor_def] variant_fields x_variant_def)


lemma shadowed_item_candidate: "listing_candidate shadowed_item = None"
  by (simp add: listing_candidate_def first_library_link_def shadowed_item_def eval_defs)

lemma shadowed_item_links:
  "descendants shadowed_item =
     [Element (js ''a'') [(js ''href'', js ''/library/foo:7b'')] [TextNode (js ''7b'')],
      Element (js ''a'') [(js ''href'', js ''/library/foo'')] [TextNode (js ''foo'')]]"
  by (simp add: shadowed_item_def descendants_def)

lemma shadowed_page_items: "containers [shadowed_item] = [shadowed_item]"
  by (simp add: containers_def shadowed_item_def has_tag_def js_def)

lemma shadowed_page_result: "getModelListing (serve [shadowed_item]) None = Inr []"
  by (simp add: getModelListing_def page_of_serve listing_of_page_def shadowed_page_items
      shadowed_item_candidate)

lemma readme_page_blocks:
  "filter (has_id (js ''display'')) (elements_in readme_page) = [readme_block]"
  by (simp add: readme_page_def readme_block_def has_id_def js_def)

lemma failing_converter_page: "page_of (fetch failing_converter u) = Inr readme_page"
  by (simp add: failing_converter_def serve_def page_of_def response_ok_def)

lemma failing_converter_html: "trim (inner_html failing_converter readme_block) = js ''hi''"
  by (simp add: failing_converter_def serve_def readme_block_def trim_def js_def is_space_def)

lemma failing_converter_throws: "turndown failing_converter h = Inl (js ''Error: boom'')"
  by (simp add: failing_converter_def serve_def)

section \<open>The digest pattern\<close>

lemma standalone_token_after:
  "standalone_token pre tok post = standalone_after None pre tok post"
  by (cases post) (auto simp: standalone_token_def standalone_after_def before_def)

lemma clear_no_groups: "clear_groups [] x = x"
  by (cases x) simp

lemma rep_exact_char:
  "n < fuel \<Longrightarrow>
   rep fuel (step_char P) g n (Some n) (p, s, k) =
     (if n \<le> length s \<and> list_all P (take n s)
      then [(if n = 0 then p else Some (s ! (n - 1)), drop n s, k)] else [])"
proof (induction n arbitrary: fuel p s)
  case 0
  then show ?case by (cases fuel) simp_all
next
  case (Suc n)
  then obtain fuel' where fuel: "fuel = Suc fuel'" and lt: "n < fuel'" by (cases fuel) auto
  show ?case
  proof (cases s)
    case Nil
    then show ?thesis by (simp add: fuel)
  next
    case (Cons c cs)
    show ?thesis
    proof (cases "P c")
      case True
      have "rep fuel (step_char P) g (Suc n) (Some (Suc n)) (p, s, k) =
            rep fuel' (step_char P) g n (Some n) (Some c, cs, k)"
        by (simp add: fuel Cons True)
      also have "\<dots> = (if n \<le> length cs \<and> list_all P (take n cs)
            then [(if n = 0 then Some c else Some (cs ! (n - 1)), drop n cs, k)] else [])"
        by (rule Suc.IH[OF lt])
      finally show ?thesis using True Cons by (cases n) auto
    next
      case False
      then show ?thesis by (simp add: fuel Cons)
    qed
  qed
qed

lemma hex_is_word: "is_lower_hex c \<Longrightarrow> is_word_char c"
  by (auto simp: is_lower_hex_def is_word_char_def is_digit_def is_lower_def)

lemma hex_step:
  "(\<lambda>y. m (Class False [Range 97 102, Range 48 57]) flags_none (clear_groups [] y)) =
   step_char is_lower_hex"
proof (rule ext)
  fix y
  have "(\<lambda>c. list_ex (\<lambda>it. citem_match flags_none it c) [Range 97 102, Range 48 57] \<noteq> False) =
        is_lower_hex"
    by (rule ext) (auto simp: is_lower_hex_def flags_none_def)
  then show "m (Class False [Range 97 102, Range 48 57]) flags_none (clear_groups [] y) =
        step_char is_lower_hex y"
    by (simp only: m.simps clear_no_groups)
qed

lemma m_re_digest:
  "m re_digest flags_none (p, s, k) =
     (if tok_here p s then [(Some (s ! 11), drop 12 s, k(1 := Some (take 12 s)))] else [])"
proof -
  have r: "m (Rep 12 (Some 12) True (Class False [Range 97 102, Range 48 57])) flags_none (p, s, k) =
      (if 12 \<le> length s \<and> list_all is_lower_hex (take 12 s)
       then [(Some (s ! 11), drop 12 s, k)] else [])"
  proof -
    have "m (Rep 12 (Some 12) True (Class False [Range 97 102, Range 48 57])) flags_none (p, s, k) =
        rep (Suc (12 + length s)) (step_char is_lower_hex) True 12 (Some 12) (p, s, k)"
      by (subst m.simps(11)) (simp only: groups_of.simps remaining.simps hex_step)
    then show ?thesis
      using rep_exact_char[of 12 "Suc (12 + length s)" is_lower_hex True p s k] by simp
  qed
  show ?thesis
  proof (cases "12 \<le> length s \<and> list_all is_lower_hex (take 12 s)")
    case False
    then show ?thesis
      by (auto simp: re_digest_def r tok_here_def simp del: m.simps(11))
  next
    case True
    then have fo: "is_word_opt (first_opt s)"
      by (cases s) (auto dest: hex_is_word)
    from True have "is_lower_hex (s ! 11)"
      by (auto simp: list_all_length)
    then have w11: "is_word_char (s ! 11)" by (rule hex_is_word)
    have tk: "take (length s - (length s - 12)) s = take 12 s" using True by simp
    show ?thesis using True w11 fo tk
      by (auto simp: re_digest_def r tok_here_def simp del: m.simps(11))
  qed
qed

lemma tok_here_iff:
  "tok_here p s \<longleftrightarrow> (\<exists>tok post. s = tok @ post \<and> standalone_after p [] tok post)"
proof
  assume "tok_here p s"
  then have "s = take 12 s @ drop 12 s \<and> standalone_after p [] (take 12 s) (drop 12 s)"
    by (auto simp: tok_here_def standalone_after_def before_def)
  then show "\<exists>tok post. s = tok @ post \<and> standalone_after p [] tok post" by blast
next
  assume "\<exists>tok post. s = tok @ post \<and> standalone_after p [] tok post"
  then obtain tok post where "s = tok @ post" "standalone_after p [] tok post" by blast
  then show "tok_here p s"
    by (auto simp: tok_here_def standalone_after_def before_def)
qed

lemma standalone_shift:
  "standalone_after (Some c) pre tok post \<longleftrightarrow> standalone_after p (c # pre) tok post"
  by (auto simp: standalone_after_def before_def)

lemma digest_from_spec:
  "(\<exists>pre post. s = pre @ digest_from i p s @ post \<and>
       standalone_after p pre (digest_from i p s) post \<and>
       (\<forall>pre' tok' post'. s = pre' @ tok' @ post' \<and> standalone_after p pre' tok' post' \<longrightarrow>
          length pre \<le> length pre')) \<or>
   (digest_from i p s = [] \<and>
    \<not> (\<exists>pre tok post. s = pre @ tok @ post \<and> standalone_after p pre tok post))"
proof (induction s arbitrary: i p)
  case Nil
  have "digest_from i p [] = []"
    by (simp add: digest_from_def m_re_digest tok_here_def)
  moreover have "\<not> (\<exists>pre tok post. [] = pre @ tok @ post \<and> standalone_after p pre tok post)"
    by (auto simp: standalone_after_def)
  ultimately show ?case by blast
next
  case (Cons c cs)
  show ?case
  proof (cases "tok_here p (c # cs)")
    case True
    then have d: "digest_from i p (c # cs) = take 12 (c # cs)"
      by (simp add: digest_from_def m_re_digest group1_text_def group1_def)
    from True have "c # cs = [] @ take 12 (c # cs) @ drop 12 (c # cs) \<and>
        standalone_after p [] (take 12 (c # cs)) (drop 12 (c # cs))"
      by (auto simp: tok_here_def standalone_after_def before_def)
    then show ?thesis unfolding d by (intro disjI1 exI[of _ "[]"] exI[of _ "drop 12 (c # cs)"]) simp
  next
    case False
    then have d: "digest_from i p (c # cs) = digest_from (Suc i) (Some c) cs"
      by (simp add: digest_from_def m_re_digest)
    have nohead: "pre' \<noteq> []" if "c # cs = pre' @ tok' @ post'" "standalone_after p pre' tok' post'"
      for pre' tok' post'
    proof
      assume "pre' = []"
      with that have "\<exists>tok post. c # cs = tok @ post \<and> standalone_after p [] tok post" by auto
      with False show False by (simp add: tok_here_iff)
    qed
    from Cons.IH[of "Suc i" "Some c"] show ?thesis
    proof
      assume "\<exists>pre post. cs = pre @ digest_from (Suc i) (Some c) cs @ post \<and>
          standalone_after (Some c) pre (digest_from (Suc i) (Some c) cs) post \<and>
          (\<forall>pre' tok' post'. cs = pre' @ tok' @ post' \<and> standalone_after (Some c) pre' tok' post' \<longrightarrow>
             length pre \<le> length pre')"
      then obtain pre post where
        dec: "cs = pre @ digest_from (Suc i) (Some c) cs @ post" and
        st: "standalone_after (Some c) pre (digest_from (Suc i) (Some c) cs) post" and
        mn: "\<And>pre' tok' post'. cs = pre' @ tok' @ post' \<Longrightarrow>
               standalone_after (Some c) pre' tok' post' \<Longrightarrow> length pre \<le> length pre'"
        by blast
      have a: "c # cs = (c # pre) @ digest_from i p (c # cs) @ post" using dec d by simp
      have b: "standalone_after p (c # pre) (digest_from i p (c # cs)) post"
        using st d standalone_shift by simp
      have e: "length (c # pre) \<le> length pre'"
        if h: "c # cs = pre' @ tok' @ post'" "standalone_after p pre' tok' post'" for pre' tok' post'
      proof -
        from nohead[OF h] obtain pre'' where p': "pre' = c # pre''" using h(1) by (cases pre') auto
        with h have "cs = pre'' @ tok' @ post'" "standalone_after (Some c) pre'' tok' post'"
          using standalone_shift by auto
        from mn[OF this] show ?thesis using p' by simp
      qed
      from a b e show ?thesis by blast
    next
      assume n: "digest_from (Suc i) (Some c) cs = [] \<and>
          \<not> (\<exists>pre tok post. cs = pre @ tok @ post \<and> standalone_after (Some c) pre tok post)"
      have "\<not> (\<exists>pre tok post. c # cs = pre @ tok @ post \<and> standalone_after p pre tok post)"
      proof
        assume "\<exists>pre tok post. c # cs = pre @ tok @ post \<and> standalone_after p pre tok post"
        then obtain pre' tok' post' where h: "c # cs = pre' @ tok' @ post'"
          "standalone_after p pre' tok' post'" by blast
        from nohead[OF h] obtain pre'' where p': "pre' = c # pre''" using h(1) by (cases pre') auto
        with h have "cs = pre'' @ tok' @ post'" "standalone_after (Some c) pre'' tok' post'"
          using standalone_shift by auto
        with n show False by blast
      qed
      with n d show ?thesis by simp
    qed
  qed
qed

lemma digest_of_spec:
  "(\<exists>pre post. s = pre @ digest_of s @ post \<and> standalone_token pre (digest_of s) post \<and>
       (\<forall>pre' tok' post'. s = pre' @ tok' @ post' \<and> standalone_token pre' tok' post' \<longrightarrow>
          length pre \<le> length pre')) \<or>
   (digest_of s = [] \<and>
    \<not> (\<exists>pre tok post. s = pre @ tok @ post \<and> standalone_token pre tok post))"
  using digest_from_spec[of s 0 None]
  by (simp add: digest_from_def digest_of_def exec_def standalone_token_after)

section \<open>The scenario pages, evaluated\<close>

lemma scenario_item_text: "text_of scenario_item = scenario_text"
  by (simp add: scenario_item_def scenario_text_def js_def)

lemma scenario_page_items: "containers scenario_page = [scenario_item]"
  by (simp add: containers_def scenario_page_def scenario_item_def has_tag_def js_def)

lemma scenario_candidate:
  "listing_candidate scenario_item = Some (js ''test-model'', js ''/library/test-model'')"
  by (simp add: listing_candidate_def first_library_link_def scenario_item_def eval_defs)

lemma scenario_no_paragraph: "List.find (has_tag (js ''p'')) (descendants scenario_item) = None"
  by (simp add: scenario_item_def eval_defs)

lemma scenario_description_regex:
  "RegExp (description_regex_source (js ''test-model'')) = Compiled scenario_regex"
  by (simp add: description_regex_source_def scenario_regex_def compile_defs eval_defs)

lemma scenario_description_match:
  "map_option group1 (exec scenario_regex flags_s scenario_text) =
   Some (Some (js ''Test description Parameters: 7b, 13b 100K Pulls 5 Tags Updated 2 hours ago''))"
  by (simp add: scenario_text_def scenario_regex_def eval_defs)

lemma scenario_tokens:
  "match_all re_param flags_i scenario_text = [js ''7b'', js ''13b'', js ''100K'']"
  by (simp add: scenario_text_def eval_defs)

lemma scenario_7b:
  "RegExp (param_regex_source (js ''7b'')) = Compiled (label_regex (js ''7b''))"
  by (simp add: param_regex_source_def escape_regex_def regex_special_def label_regex_def
      compile_defs eval_defs)

lemma scenario_13b:
  "RegExp (param_regex_source (js ''13b'')) = Compiled (label_regex (js ''13b''))"
  by (simp add: param_regex_source_def escape_regex_def regex_special_def label_regex_def
      compile_defs eval_defs)

lemma scenario_100K:
  "RegExp (param_regex_source (js ''100K'')) = Compiled (label_regex (js ''100K''))"
  by (simp add: param_regex_source_def escape_regex_def regex_special_def label_regex_def
      compile_defs eval_defs)

lemma scenario_7b_free: "regex_test (label_regex (js ''7b'')) flags_i scenario_text = False"
  by (simp add: label_regex_def scenario_text_def eval_defs)

lemma scenario_13b_free: "regex_test (label_regex (js ''13b'')) flags_i scenario_text = False"
  by (simp add: label_regex_def scenario_text_def eval_defs)

lemma scenario_100K_labelled: "regex_test (label_regex (js ''100K'')) flags_i scenario_text = True"
  by (simp add: label_regex_def scenario_text_def eval_defs)

lemma scenario_pulls: "pulls_of scenario_text = js ''100K''"
  by (simp add: pulls_of_def scenario_text_def eval_defs)

lemma scenario_tags: "tags_of scenario_text = Finite 5"
  by (simp add: tags_of_def parseInt_def scenario_text_def eval_defs)

lemma scenario_updated: "updated_of scenario_text = js ''2 hours ago''"
  by (simp add: updated_of_def scenario_text_def eval_defs)

lemma scenario_capabilities: "capabilities_of scenario_text = []"
  by (simp add: capabilities_of_def scenario_text_def eval_defs)

lemma scenario_description:
  "description_of env scenario_item (js ''test-model'') =
     Inr (js ''Test description Parameters: 7b, 13b 100K Pulls 5 Tags Updated 2 hours ago'')"
proof -
  from scenario_description_match obtain mt where
    mt: "exec scenario_regex flags_s scenario_text = Some mt"
    and g: "group1 mt = Some (js ''Test description Parameters: 7b, 13b 100K Pulls 5 Tags Updated 2 hours ago'')"
    by auto
  have t: "trim (js ''Test description Parameters: 7b, 13b 100K Pulls 5 Tags Updated 2 hours ago'') =
      js ''Test description Parameters: 7b, 13b 100K Pulls 5 Tags Updated 2 hours ago''"
    by (simp add: trim_def js_def is_space_def)
  show ?thesis
    by (simp add: description_of_def match_source_def scenario_no_paragraph
        scenario_description_regex scenario_item_text mt g t)
qed

lemma scenario_parameters: "parameters_of env scenario_text = Inr [js ''7b'', js ''13b'']"
  by (simp add: parameters_of_def scenario_tokens collect_parameters_step[OF scenario_7b]
      collect_parameters_step[OF scenario_13b] collect_parameters_step[OF scenario_100K]
      scenario_7b_free scenario_13b_free scenario_100K_labelled del: collect_parameters.simps(2);
      simp add: js_def toLowerCase_def lower_char_def is_upper_def)

lemma scenario_item_record:
  "listing_item env scenario_item (js ''/library/test-model'') (js ''test-model'') = Inr scenario_record"
  by (simp add: listing_item_def scenario_description scenario_item_text scenario_parameters
      scenario_pulls scenario_tags scenario_updated scenario_capabilities scenario_record_def;
      simp add: baseUrl_def js_def)

lemma scenario_result: "getModelListing (serve scenario_page) None = Inr [scenario_record]"
  by (simp add: getModelListing_def page_of_serve listing_of_page_def scenario_page_items
      scenario_candidate scenario_item_record)

lemma broken_item_candidate: "listing_candidate broken_item = Some (js ''('', js ''/library/('')"
  by (simp add: listing_candidate_def first_library_link_def broken_item_def eval_defs)

lemma broken_pattern: "RegExp (description_regex_source (js ''('')) = SyntaxError"
  by (simp add: description_regex_source_def compile_defs eval_defs)

lemma broken_no_paragraph: "List.find (has_tag (js ''p'')) (descendants broken_item) = None"
  by (simp add: broken_item_def eval_defs)

lemma broken_item_throws:
  "listing_item env broken_item (js ''/library/('') (js ''('') =
     Inl (RegExpSyntaxError (description_regex_source (js ''('')))"
  by (simp add: listing_item_def description_of_def match_source_def broken_pattern
      broken_no_paragraph)

lemma broken_page_items: "containers [broken_item] = [broken_item]"
  by (simp add: containers_def broken_item_def has_tag_def js_def)

lemma digest_page_links:
  "tag_links env (js ''m'') digest_page =
     Inr [\<lparr>self = digest_link, ancestors = [], following = [digest_note]\<rparr>]"
  by (simp add: tag_links_def digest_page_def digest_link_def digest_note_def eval_defs)

lemma digest_link_name: "tag_of_href (href_of digest_link) = Some (js ''x'')"
  by (simp add: tag_of_href_def digest_link_def eval_defs)

lemma digest_cursor_text:
  "tag_text \<lparr>self = digest_link, ancestors = [], following = [digest_note]\<rparr> = js ''1GB 0123456789ab''"
  by (simp add: tag_text_def sibling_text_def digest_note_def has_size_unit_def js_def)

lemma digest_note_fields:
  "size_of (js ''1GB 0123456789ab'') = js ''1GB'' \<and>
   digest_of (js ''1GB 0123456789ab'') = js ''0123456789ab'' \<and>
   modifiedAt_of (js ''1GB 0123456789ab'') = [] \<and>
   contextWindow_of (js ''1GB 0123456789ab'') = None \<and>
   inputType_of (js ''1GB 0123456789ab'') = None"
  by (simp add: size_of_def digest_of_def modifiedAt_of_def datePatterns_def contextWindow_of_def
      inputType_of_def eval_defs)

lemma digest_page_result: "getModelTags (serve digest_page) (js ''m'') = Inr [digest_record]"
  by (simp add: getModelTags_def page_of_serve tags_of_page_def digest_page_links digest_link_name
      tag_record_def digest_cursor_text digest_note_fields digest_record_def aliases_of_def;
      simp add: digest_link_def eval_defs)

section \<open>The parameters of a catalog entry\<close>

lemma seg_refl: "seg P x x"
  by (auto simp: seg_def)

lemma seg_trans: "seg P x y \<Longrightarrow> seg P y z \<Longrightarrow> seg P x z"
  by (fastforce simp: seg_def)

lemma seg_clear: "seg P (clear_groups gs x) y = seg P x y"
  by (cases x) (simp add: seg_def)

lemma seg_capture: "seg P x (set_capture n x0 y) = seg P x y"
  by (cases x0; cases y) (simp add: seg_def)

lemma step_char_seg: "(\<And>c. Q c \<Longrightarrow> P c) \<Longrightarrow> y \<in> set (step_char Q x) \<Longrightarrow> seg P x y"
  by (cases "(Q, x)" rule: step_char.cases) (auto simp: seg_def split: if_splits intro: exI[of _ "[c]" for c])

lemma rep_seg:
  "(\<And>x y. y \<in> set (step x) \<Longrightarrow> seg P x y) \<Longrightarrow>
     y \<in> set (rep n step g lo hi x) \<Longrightarrow> seg P x y"
  "(\<And>x y. y \<in> set (step x) \<Longrightarrow> seg P x y) \<Longrightarrow>
     y \<in> set (rep_each n step g lo hi x zs) \<Longrightarrow> \<exists>z \<in> set zs. seg P z y"
proof (induction n step g lo hi x and n step g lo hi x zs arbitrary: y and y rule: rep_rep_each.induct)
  case (1 step g lo hi x)
  then show ?case by (auto simp: seg_refl split: if_splits)
next
  case (2 n step g lo hi x)
  show ?case
  proof (cases "y = x")
    case True
    then show ?thesis by (simp add: seg_refl)
  next
    case False
    with "2.prems"(2) have "hi \<noteq> Some 0" and "y \<in> set (rep_each n step g lo hi x (step x))"
      by (auto split: if_splits)
    then have "\<exists>z \<in> set (step x). seg P z y"
      using "2.IH" "2.prems"(1) by (cases "0 < lo"; cases g) auto
    then obtain z where z: "z \<in> set (step x)" "seg P z y" by blast
    from "2.prems"(1)[OF z(1)] z(2) show ?thesis by (rule seg_trans)
  qed
next
  case (3 n step g lo hi x)
  then show ?case by simp
next
  case (4 n step g lo hi x z zs)
  from "4.prems"(2) consider
    (a) "\<not> (lo = 0 \<and> remaining x \<le> remaining z)" "y \<in> set (rep n step g (lo - 1) (map_option (\<lambda>h. h - 1) hi) z)"
    | (b) "y \<in> set (rep_each n step g lo hi x zs)"
    by (auto split: if_splits)
  then show ?case
  proof cases
    case a
    then show ?thesis using "4.IH"(1) "4.prems"(1) by auto
  next
    case b
    then show ?thesis using "4.IH"(2) "4.prems"(1) by auto
  qed
qed

lemma m_seg: "chars_ok P f r \<Longrightarrow> y \<in> set (m r f x) \<Longrightarrow> seg P x y"
proof (induction r arbitrary: x y)
  case (Cat a b)
  from Cat.prems obtain z where z: "z \<in> set (m a f x)" "y \<in> set (m b f z)" by auto
  from Cat.prems(1) have "chars_ok P f a" "chars_ok P f b" by simp_all
  from Cat.IH(1)[OF this(1) z(1)] Cat.IH(2)[OF this(2) z(2)] show ?case by (rule seg_trans)
next
  case (Group n a)
  from Group.prems obtain z where z: "z \<in> set (m a f x)" "y = set_capture n x z" by auto
  from Group.prems(1) have "chars_ok P f a" by simp
  from Group.IH[OF this z(1)] show ?case by (simp add: z(2) seg_capture)
next
  case (Rep lo hi g a)
  from Rep.prems(1) have ch: "chars_ok P f a" by simp
  have st: "seg P x y" if "y \<in> set (m a f (clear_groups (groups_of a) x))" for x y
  proof -
    from Rep.IH[OF ch that] have "seg P (clear_groups (groups_of a) x) y" .
    then show ?thesis by (simp add: seg_clear)
  qed
  have mem: "y \<in> set (rep (Suc (lo + remaining x))
      (\<lambda>y. m a f (clear_groups (groups_of a) y)) g lo hi x)"
    using Rep.prems(2) by (subst (asm) m.simps(11))
  show ?case
    by (rule rep_seg(1)[where step = "\<lambda>y. m a f (clear_groups (groups_of a) y)", OF st mem])
next
  case (Lit a)
  show ?case
    by (rule step_char_seg[where Q = "\<lambda>c. canon f a = canon f c"]) (use Lit in auto)
next
  case Dot
  show ?case
    by (rule step_char_seg[where Q = "\<lambda>c. dotAll f \<or> \<not> is_line_terminator c"]) (use Dot in auto)
next
  case (Class neg items)
  show ?case
    by (rule step_char_seg[where Q = "\<lambda>c. list_ex (\<lambda>it. citem_match f it c) items \<noteq> neg"])
       (use Class in auto)
next
  case (Alt a b)
  from Alt.prems(1) have ch: "chars_ok P f a" "chars_ok P f b" by simp_all
  from Alt.prems(2) have "y \<in> set (m a f x) \<or> y \<in> set (m b f x)" by simp
  then show ?case
  proof
    assume "y \<in> set (m a f x)"
    with ch(1) show ?thesis by (rule Alt.IH(1))
  next
    assume "y \<in> set (m b f x)"
    with ch(2) show ?thesis by (rule Alt.IH(2))
  qed
qed (auto simp: seg_refl split: if_splits)



































section \<open>The bound on the iterations\<close>

text \<open>
  No pattern moves backwards in the input, so the bound the matcher gives to a repetition
  is never reached: a larger one gives the same states.
\<close>

lemma rep_fuel:
  "(\<And>x y. y \<in> set (step x) \<Longrightarrow> remaining y \<le> remaining x) \<Longrightarrow>
     lo + remaining x < n \<Longrightarrow> lo + remaining x < n' \<Longrightarrow>
     rep n step g lo hi x = rep n' step g lo hi x"
  "(\<And>x y. y \<in> set (step x) \<Longrightarrow> remaining y \<le> remaining x) \<Longrightarrow>
     lo + remaining x \<le> n \<Longrightarrow> lo + remaining x \<le> n' \<Longrightarrow>
     (\<And>z. z \<in> set zs \<Longrightarrow> remaining z \<le> remaining x) \<Longrightarrow>
     rep_each n step g lo hi x zs = rep_each n' step g lo hi x zs"
proof (induction n step g lo hi x and n step g lo hi x zs arbitrary: n' and n'
    rule: rep_rep_each.induct)
  case (1 step g lo hi x)
  then show ?case by simp
next
  case (2 n step g lo hi x)
  from "2.prems"(3) obtain k where k: "n' = Suc k" by (cases n') auto
  show ?case
  proof (cases "hi = Some 0")
    case True
    then show ?thesis by (simp add: k)
  next
    case False
    have le: "lo + remaining x \<le> n" "lo + remaining x \<le> k"
      using "2.prems"(2,3) k by simp_all
    have e: "rep_each n step g lo hi x (step x) = rep_each k step g lo hi x (step x)"
    proof (cases "0 < lo")
      case True
      show ?thesis
        by (rule "2.IH"(1)[OF False True _ le]) (use "2.prems"(1) in auto)
    next
      case lo: False
      show ?thesis
      proof (cases g)
        case True
        show ?thesis
          by (rule "2.IH"(2)[OF False lo True _ le]) (use "2.prems"(1) in auto)
      next
        case g: False
        show ?thesis
          by (rule "2.IH"(3)[OF False lo g _ le]) (use "2.prems"(1) in auto)
      qed
    qed
    show ?thesis by (simp only: k rep.simps(2) e)
  qed
next
  case (3 n step g lo hi x)
  then show ?case by simp
next
  case (4 n step g lo hi x y ys)
  have ry: "remaining y \<le> remaining x" by (rule "4.prems"(4)) simp
  have tl: "rep_each n step g lo hi x ys = rep_each n' step g lo hi x ys"
    by (rule "4.IH"(2)[OF _ "4.prems"(2,3)]) (use "4.prems"(1,4) in auto)
  show ?case
  proof (cases "lo = 0 \<and> remaining x \<le> remaining y")
    case True
    then have a: "rep_each k step g lo hi x (y # ys) = rep_each k step g lo hi x ys" for k
      by simp
    show ?thesis unfolding a by (rule tl)
  next
    case False
    have b: "lo - 1 + remaining y < n" "lo - 1 + remaining y < n'"
      using False ry "4.prems"(2,3) by auto
    have hd: "rep n step g (lo - 1) (map_option (\<lambda>h. h - 1) hi) y =
          rep n' step g (lo - 1) (map_option (\<lambda>h. h - 1) hi) y"
      by (rule "4.IH"(1)[OF False _ b]) (use "4.prems"(1) in auto)
    have a: "rep_each k step g lo hi x (y # ys) =
        rep k step g (lo - 1) (map_option (\<lambda>h. h - 1) hi) y @ rep_each k step g lo hi x ys" for k
      by (simp only: rep_each.simps False if_False)
    show ?thesis unfolding a hd tl by (rule refl)
  qed
qed

lemma chars_ok_any: "chars_ok (\<lambda>c. True) f r"
  by (induction r) simp_all

lemma m_remaining: "y \<in> set (m r f x) \<Longrightarrow> remaining y \<le> remaining x"
proof -
  assume "y \<in> set (m r f x)"
  with chars_ok_any have "seg (\<lambda>c. True) x y" by (rule m_seg)
  then show ?thesis by (cases x; cases y) (auto simp: seg_def)
qed

lemma remaining_clear: "remaining (clear_groups gs x) = remaining x"
  by (cases x) simp

lemma m_fuel:
  assumes "lo + remaining x < n"
  shows "rep n (\<lambda>y. m a f (clear_groups (groups_of a) y)) g lo hi x = m (Rep lo hi g a) f x"
proof -
  have st: "remaining y \<le> remaining x"
    if "y \<in> set (m a f (clear_groups (groups_of a) x))" for x y
    using m_remaining[OF that] by (simp add: remaining_clear)
  have "rep n (\<lambda>y. m a f (clear_groups (groups_of a) y)) g lo hi x =
        rep (Suc (lo + remaining x)) (\<lambda>y. m a f (clear_groups (groups_of a) y)) g lo hi x"
    by (rule rep_fuel(1)[where step = "\<lambda>y. m a f (clear_groups (groups_of a) y)", OF _ assms])
       (use st in auto)
  then show ?thesis by (subst m.simps(11))
qed

section \<open>Further pages, evaluated\<close>

text \<open>
  A model name with a double quote or a backslash: the selection is the engine's, and
  when the engine throws on the selector the operation throws.
\<close>

lemma quoted_name_throws:
  "34 \<in> set modelName \<or> 92 \<in> set modelName \<Longrightarrow>
   page_of (fetch env (tags_url modelName)) = Inr doc \<Longrightarrow>
   host_select env (tag_selector modelName) doc = Inl e \<Longrightarrow>
   getModelTags env modelName = Inl (FailedToFetch ModelTagsOp (SelectorError e))"
  by (simp add: getModelTags_def tags_of_page_def tag_links_def)

lemma quoted_name_selection:
  "34 \<in> set modelName \<or> 92 \<in> set modelName \<Longrightarrow>
   page_of (fetch env (tags_url modelName)) = Inr doc \<Longrightarrow>
   host_select env (tag_selector modelName) doc = Inr sel \<Longrightarrow>
   getModelTags env modelName = Inr (tags_loop (pick sel 0 (cursors [] doc)) {} [])"
  by (simp add: getModelTags_def tags_of_page_def tag_links_def)

lemma pair_listing_items: "containers pair_listing = [seven_item, thirteen_item, pulls_item]"
  by (simp add: containers_def pair_listing_def seven_item_def thirteen_item_def pulls_item_def
      has_tag_def js_def)

lemma seven_item_candidate: "listing_candidate seven_item = Some (js ''m'', js ''/library/m'')"
  by (simp add: listing_candidate_def first_library_link_def seven_item_def eval_defs)

lemma thirteen_item_candidate: "listing_candidate thirteen_item = Some (js ''m'', js ''/library/m'')"
  by (simp add: listing_candidate_def first_library_link_def thirteen_item_def eval_defs)

lemma pulls_item_candidate: "listing_candidate pulls_item = Some (js ''n'', js ''/library/n'')"
  by (simp add: listing_candidate_def first_library_link_def pulls_item_def eval_defs)

lemma seven_item_text: "text_of seven_item = js ''m 7b''"
  by (simp add: seven_item_def js_def)

lemma pulls_item_text: "text_of pulls_item = js ''n 13b 100K Pulls''"
  by (simp add: pulls_item_def js_def)

lemma seven_item_description: "description_of env seven_item (js ''m'') = Inr (js ''7b'')"
  by (simp add: description_of_def match_source_def seven_item_def
      description_regex_source_def compile_defs eval_defs)

lemma pulls_item_description: "description_of env pulls_item (js ''n'') = Inr (js ''13b 100K Pulls'')"
  by (simp add: description_of_def match_source_def pulls_item_def
      description_regex_source_def compile_defs eval_defs)


lemma seven_tokens: "match_all re_param flags_i (js ''m 7b'') = [js ''7b'']"
  by (simp add: eval_defs)

lemma pulls_tokens: "match_all re_param flags_i (js ''n 13b 100K Pulls'') = [js ''13b'', js ''100K'']"
  by (simp add: eval_defs)

lemma seven_free: "regex_test (label_regex (js ''7b'')) flags_i (js ''m 7b'') = False"
  by (simp add: label_regex_def eval_defs)

lemma pulls_13b_free:
  "regex_test (label_regex (js ''13b'')) flags_i (js ''n 13b 100K Pulls'') = False"
  by (simp add: label_regex_def eval_defs)

lemma pulls_100K_labelled:
  "regex_test (label_regex (js ''100K'')) flags_i (js ''n 13b 100K Pulls'') = True"
  by (simp add: label_regex_def eval_defs)

lemma seven_parameters: "parameters_of env (js ''m 7b'') = Inr [js ''7b'']"
  by (simp add: parameters_of_def seven_tokens collect_parameters_step[OF scenario_7b]
      seven_free del: collect_parameters.simps(2);
      simp add: js_def toLowerCase_def lower_char_def is_upper_def)

lemma pulls_parameters: "parameters_of env (js ''n 13b 100K Pulls'') = Inr [js ''13b'']"
  by (simp add: parameters_of_def pulls_tokens collect_parameters_step[OF scenario_13b]
      collect_parameters_step[OF scenario_100K] pulls_13b_free pulls_100K_labelled
      del: collect_parameters.simps(2);
      simp add: js_def toLowerCase_def lower_char_def is_upper_def)

lemma seven_fields:
  "pulls_of (js ''m 7b'') = js ''0'' \<and> tags_of (js ''m 7b'') = Finite 0 \<and>
   updated_of (js ''m 7b'') = [] \<and> capabilities_of (js ''m 7b'') = []"
  by (simp add: pulls_of_def tags_of_def updated_of_def capabilities_of_def eval_defs)

lemma pulls_fields:
  "pulls_of (js ''n 13b 100K Pulls'') = js ''100K'' \<and>
   tags_of (js ''n 13b 100K Pulls'') = Finite 0 \<and>
   updated_of (js ''n 13b 100K Pulls'') = [] \<and> capabilities_of (js ''n 13b 100K Pulls'') = []"
  by (simp add: pulls_of_def tags_of_def updated_of_def capabilities_of_def eval_defs)

lemma seven_item_record: "listing_item env seven_item (js ''/library/m'') (js ''m'') = Inr seven_record"
  by (simp add: listing_item_def seven_item_description seven_item_text seven_parameters
      seven_fields seven_record_def; simp add: baseUrl_def js_def)

lemma pulls_item_record: "listing_item env pulls_item (js ''/library/n'') (js ''n'') = Inr pulls_record"
  by (simp add: listing_item_def pulls_item_description pulls_item_text pulls_parameters
      pulls_fields pulls_record_def; simp add: baseUrl_def js_def)

lemma pair_listing_result:
  "getModelListing (serve pair_listing) None = Inr [seven_record, pulls_record]"
  by (simp add: getModelListing_def page_of_serve listing_of_page_def pair_listing_items
      seven_item_candidate thirteen_item_candidate pulls_item_candidate seven_item_record
      pulls_item_record; simp add: js_def)

lemma thirteen_differs: "li_parameters seven_record \<noteq> [js ''13b'']"
  by (simp add: seven_record_def js_def)

lemma lookahead_page: "page_of (fetch lookahead_host u) = Inr [lookahead_item]"
  by (simp add: lookahead_host_def serve_def page_of_def response_ok_def)

lemma lookahead_items: "containers [lookahead_item] = [lookahead_item]"
  by (simp add: containers_def lookahead_item_def has_tag_def js_def)

lemma lookahead_candidate:
  "listing_candidate lookahead_item = Some (js ''a(?!b)'', js ''/library/a(?!b)'')"
  by (simp add: listing_candidate_def first_library_link_def lookahead_item_def eval_defs)

lemma lookahead_pattern: "RegExp (description_regex_source (js ''a(?!b)'')) = Beyond"
  by (simp add: description_regex_source_def compile_defs eval_defs)

lemma lookahead_no_paragraph: "List.find (has_tag (js ''p'')) (descendants lookahead_item) = None"
  by (simp add: lookahead_item_def eval_defs)

lemma lookahead_item_text: "text_of lookahead_item = js ''a desc''"
  by (simp add: lookahead_item_def js_def)

lemma lookahead_description:
  "description_of lookahead_host lookahead_item (js ''a(?!b)'') = Inr (js ''desc'')"
  by (simp add: description_of_def match_source_def lookahead_pattern lookahead_no_paragraph
      lookahead_host_def; simp add: trim_def js_def is_space_def)

lemma lookahead_parameters: "parameters_of env (js ''a desc'') = Inr []"
  by (simp add: parameters_of_def eval_defs)

lemma lookahead_fields:
  "pulls_of (js ''a desc'') = js ''0'' \<and> tags_of (js ''a desc'') = Finite 0 \<and>
   updated_of (js ''a desc'') = [] \<and> capabilities_of (js ''a desc'') = []"
  by (simp add: pulls_of_def tags_of_def updated_of_def capabilities_of_def eval_defs)

lemma lookahead_item_record:
  "listing_item lookahead_host lookahead_item (js ''/library/a(?!b)'') (js ''a(?!b)'') =
     Inr lookahead_record"
  by (simp add: listing_item_def lookahead_description lookahead_item_text lookahead_parameters
      lookahead_fields lookahead_record_def; simp add: baseUrl_def js_def)

lemma lookahead_result: "getModelListing lookahead_host None = Inr [lookahead_record]"
  by (simp add: getModelListing_def lookahead_page listing_of_page_def lookahead_items
      lookahead_candidate lookahead_item_record)

lemma plain_m: "34 \<notin> set (js ''m'') \<and> 92 \<notin> set (js ''m'')"
  by (simp add: js_def)

lemma twice_page_cursors: "cursors [] twice_page =
   [\<lparr>self = twice_body, ancestors = [], following = []\<rparr>,
    \<lparr>self = first_block, ancestors = [twice_body], following = [latest_block]\<rparr>,
    first_cursor,
    \<lparr>self = latest_block, ancestors = [twice_body], following = []\<rparr>,
    latest_cursor]"
  by (simp add: twice_page_def twice_body_def first_block_def latest_block_def first_link_def
      latest_link_def first_cursor_def latest_cursor_def)

lemma twice_link_tests:
  "has_tag (js ''a'') first_link \<and> href_contains (js ''/library/'' @ js ''m'' @ js '':'') first_link \<and>
   href_contains (js ''/library/'') first_link \<and> href_contains (js '':'') first_link \<and>
   has_tag (js ''a'') latest_link \<and> href_contains (js ''/library/'' @ js ''m'' @ js '':'') latest_link \<and>
   href_contains (js ''/library/'') latest_link \<and> href_contains (js '':'') latest_link \<and>
   \<not> has_tag (js ''a'') first_block \<and> \<not> has_tag (js ''a'') latest_block \<and>
   \<not> has_tag (js ''a'') twice_body"
  by (simp add: first_link_def latest_link_def first_block_def latest_block_def twice_body_def
      eval_defs)

lemma twice_page_links: "tag_links env (js ''m'') twice_page = Inr [first_cursor, latest_cursor]"
  by (simp add: tag_links_def twice_page_cursors plain_m twice_link_tests first_cursor_def
      latest_cursor_def)

lemma twice_page_variant_links: "variant_links twice_page = [first_cursor, latest_cursor]"
  by (simp add: variant_links_def twice_page_cursors twice_link_tests first_cursor_def
      latest_cursor_def)

lemma twice_names:
  "tag_of_href (href_of (self first_cursor)) = Some (js ''x'') \<and>
   tag_of_href (href_of (self latest_cursor)) = Some (js ''x'')"
  by (simp add: tag_of_href_def first_cursor_def latest_cursor_def first_link_def latest_link_def
      eval_defs)

lemma first_block_text: "text_of first_block = js ''first 1GB''"
  by (simp add: first_block_def first_link_def js_def)

lemma first_unit: "has_size_unit (js ''first 1GB'')"
  by (simp add: has_size_unit_def js_def)

lemma first_cursor_text: "tag_text first_cursor = js ''first 1GB''"
  by (simp add: tag_text_def sibling_text_def first_cursor_def first_block_text first_unit;
      simp add: js_def)

lemma first_fields:
  "size_of (js ''first 1GB'') = js ''1GB'' \<and> digest_of (js ''first 1GB'') = [] \<and>
   modifiedAt_of (js ''first 1GB'') = [] \<and> contextWindow_of (js ''first 1GB'') = None \<and>
   inputType_of (js ''first 1GB'') = None \<and> variant_updated (js ''first 1GB'') = []"
  by (simp add: size_of_def digest_of_def modifiedAt_of_def datePatterns_def contextWindow_of_def
      inputType_of_def variant_updated_def eval_defs)

lemma first_label: "text_of (self first_cursor) = js ''first''"
  by (simp add: first_cursor_def first_link_def)

lemma first_aliases: "aliases_of (js ''x'') t (js ''first'') = []"
  by (simp add: aliases_of_def eval_defs)

lemma first_cursor_record: "tag_record (js ''x'') first_cursor = first_record"
  by (simp add: tag_record_def first_cursor_text first_fields first_label first_aliases
      first_record_def)

lemma latest_cursor_aliases:
  "tag_aliases (tag_record (js ''x'') latest_cursor) = Some [js ''latest'']"
  by (simp add: tag_record_def aliases_of_def latest_cursor_def latest_link_def eval_defs)

lemma twice_page_result: "getModelTags (serve twice_page) (js ''m'') = Inr [first_record]"
  by (simp add: getModelTags_def page_of_serve tags_of_page_def twice_page_links twice_names
      first_cursor_record)

lemma first_cursor_variant_text: "variant_text first_cursor = js ''first 1GB''"
  by (simp add: variant_text_def first_cursor_def first_block_text;
      simp add: first_link_def first_block_def has_tag_def js_def)

lemma twice_page_variants: "variants_loop (variant_links twice_page) {} [] = [first_variant]"
  by (simp add: twice_page_variant_links twice_names variant_of_def first_cursor_variant_text
      first_fields first_variant_def)

lemma latest_variant_size: "var_size (variant_of (js ''x'') latest_cursor) = js ''2GB''"
  by (simp add: variant_of_def variant_text_def latest_cursor_def;
      simp add: latest_link_def latest_block_def size_of_def eval_defs)

lemma cascade_page_cursors: "cursors [] cascade_page =
   [\<lparr>self = cascade_body, ancestors = [], following = []\<rparr>,
    \<lparr>self = sibling_block, ancestors = [cascade_body],
      following = [parent_block, scan_block, bare_block]\<rparr>,
    sibling_cursor,
    \<lparr>self = sibling_note, ancestors = [sibling_block, cascade_body], following = []\<rparr>,
    \<lparr>self = parent_block, ancestors = [cascade_body], following = [scan_block, bare_block]\<rparr>,
    parent_cursor,
    \<lparr>self = scan_block, ancestors = [cascade_body], following = [bare_block]\<rparr>,
    scan_cursor,
    \<lparr>self = plain_note, ancestors = [scan_block, cascade_body], following = [scan_note, filler]\<rparr>,
    \<lparr>self = scan_note, ancestors = [scan_block, cascade_body], following = [filler]\<rparr>,
    \<lparr>self = bare_block, ancestors = [cascade_body], following = []\<rparr>,
    bare_cursor]"
  by (simp add: cascade_page_def cascade_body_def sibling_block_def parent_block_def scan_block_def
      bare_block_def sibling_link_def sibling_note_def parent_link_def scan_link_def plain_note_def
      scan_note_def filler_def bare_link_def sibling_cursor_def parent_cursor_def scan_cursor_def
      bare_cursor_def)

lemma cascade_link_tests:
  "has_tag (js ''a'') sibling_link \<and> href_contains (js ''/library/'' @ js ''m'' @ js '':'') sibling_link \<and>
   has_tag (js ''a'') parent_link \<and> href_contains (js ''/library/'' @ js ''m'' @ js '':'') parent_link \<and>
   has_tag (js ''a'') scan_link \<and> href_contains (js ''/library/'' @ js ''m'' @ js '':'') scan_link \<and>
   has_tag (js ''a'') bare_link \<and> href_contains (js ''/library/'' @ js ''m'' @ js '':'') bare_link \<and>
   \<not> has_tag (js ''a'') cascade_body \<and> \<not> has_tag (js ''a'') sibling_block \<and>
   \<not> has_tag (js ''a'') parent_block \<and> \<not> has_tag (js ''a'') scan_block \<and>
   \<not> has_tag (js ''a'') bare_block \<and> \<not> has_tag (js ''a'') sibling_note \<and>
   \<not> has_tag (js ''a'') plain_note \<and> \<not> has_tag (js ''a'') scan_note"
  by (simp add: cascade_body_def sibling_block_def parent_block_def scan_block_def
      bare_block_def sibling_link_def sibling_note_def parent_link_def scan_link_def plain_note_def
      scan_note_def bare_link_def eval_defs)

lemma cascade_page_links:
  "tag_links env (js ''m'') cascade_page = Inr [sibling_cursor, parent_cursor, scan_cursor, bare_cursor]"
  by (simp add: tag_links_def cascade_page_cursors plain_m cascade_link_tests sibling_cursor_def
      parent_cursor_def scan_cursor_def bare_cursor_def)

lemma cascade_names:
  "tag_of_href (href_of (self sibling_cursor)) = Some (js ''a'') \<and>
   tag_of_href (href_of (self parent_cursor)) = Some (js ''b'') \<and>
   tag_of_href (href_of (self scan_cursor)) = Some (js ''c'') \<and>
   tag_of_href (href_of (self bare_cursor)) = Some (js ''d'')"
  by (simp add: tag_of_href_def sibling_cursor_def parent_cursor_def scan_cursor_def
      bare_cursor_def sibling_link_def parent_link_def scan_link_def bare_link_def eval_defs)

lemma cascade_texts:
  "text_of sibling_note = js ''1GB'' \<and> text_of parent_block = js ''b 2GB'' \<and>
   text_of plain_note = js ''none'' \<and> text_of scan_note = js ''3GB'' \<and>
   text_of bare_block = js ''d'' \<and> text_of sibling_block = js ''a1GB''"
  by (simp add: sibling_note_def parent_block_def parent_link_def plain_note_def scan_note_def
      bare_block_def bare_link_def sibling_block_def sibling_link_def js_def)

lemma cascade_units:
  "has_size_unit (js ''1GB'') \<and> has_size_unit (js ''b 2GB'') \<and> has_size_unit (js ''3GB'') \<and>
   \<not> has_size_unit (js ''none'') \<and> \<not> has_size_unit (js ''d'')"
  by (simp add: has_size_unit_def js_def)

lemma cascade_elements:
  "is_element sibling_note \<and> is_element plain_note \<and> is_element scan_note \<and> \<not> is_element filler"
  by (simp add: sibling_note_def plain_note_def scan_note_def filler_def)

lemma scan_block_long: "\<not> length (text_of scan_block) < 200"
  by (simp add: scan_block_def scan_link_def plain_note_def scan_note_def filler_def
      filler_text_def)

lemma cascade_body_long: "\<not> length (text_of cascade_body) < 200"
  by (simp add: cascade_body_def scan_block_def scan_link_def plain_note_def scan_note_def
      filler_def filler_text_def)

lemma short_texts:
  "length (js ''b 2GB'') < 200 \<and> length (js ''3GB'') < 100"
  by (simp add: js_def)

lemma sibling_stages: "stage_one sibling_cursor = Some (js ''1GB'')"
  by (simp add: stage_one_def sibling_cursor_def cascade_elements cascade_texts cascade_units)

lemma parent_stages:
  "stage_one parent_cursor = None \<and> stage_two parent_cursor = Some (js ''b 2GB'')"
  by (simp add: stage_one_def stage_two_def parent_cursor_def cascade_texts cascade_units
      short_texts)

lemma scan_stages:
  "stage_one scan_cursor = None \<and> stage_two scan_cursor = None \<and>
   stage_three scan_cursor = Some (js ''3GB'')"
  by (simp add: stage_one_def stage_two_def stage_three_def scan_cursor_def cascade_elements
      cascade_texts cascade_units short_texts scan_block_long cascade_body_long)

lemma bare_stages:
  "stage_one bare_cursor = None \<and> stage_two bare_cursor = None \<and> stage_three bare_cursor = None"
  by (simp add: stage_one_def stage_two_def stage_three_def bare_cursor_def cascade_texts
      cascade_units cascade_body_long)

lemma cascade_page_texts:
  "tag_text sibling_cursor = js ''1GB'' \<and> tag_text parent_cursor = js ''b 2GB'' \<and>
   tag_text scan_cursor = js ''3GB'' \<and> tag_text bare_cursor = []"
  by (simp add: tag_text_cascade cascade_def sibling_stages parent_stages scan_stages bare_stages)

lemma scan_cursor_text: "tag_text scan_cursor = js ''3GB''"
  by (simp add: tag_text_def sibling_text_def scan_cursor_def cascade_elements cascade_texts
      cascade_units short_texts scan_block_long cascade_body_long)

lemma cascade_sizes:
  "size_of (js ''1GB'') = js ''1GB'' \<and> size_of (js ''b 2GB'') = js ''2GB'' \<and>
   size_of (js ''3GB'') = js ''3GB''"
  by (simp add: size_of_def eval_defs)

lemma cascade_page_result:
  "getModelTags (serve cascade_page) (js ''m'') =
     Inr [tag_record (js ''a'') sibling_cursor, tag_record (js ''b'') parent_cursor,
          tag_record (js ''c'') scan_cursor, tag_record (js ''d'') bare_cursor]"
  by (simp add: getModelTags_def page_of_serve tags_of_page_def cascade_page_links cascade_names;
      simp add: js_def)

section \<open>The claims\<close>

text \<open>
  C10. The name of the record \<^verbatim>\<open>getModelDetails(slug, tag?)\<close> returns is the slug argument
  as given: it is not read from the page, and the optional tag enters the result only
  through the address that is fetched, never the name.
\<close>

theorem details_name_is_slug:
  assumes "getModelDetails env modelName tag = Inr (d, w)"
  shows "det_name d = modelName \<and>
         (\<exists>doc. page_of (fetch env (details_url modelName tag)) = Inr doc \<and>
                (d, w) = details_of_page env modelName doc)"
  using assms by (auto simp: getModelDetails_def details_of_page_def split: sum.splits)

theorem details_name_is_slug_witness:
  "getModelDetails (serve tags_page) (js ''m'') (Some (js ''x'')) =
     Inr (details_of_page (serve tags_page) (js ''m'') tags_page) \<and>
   det_name (fst (details_of_page (serve tags_page) (js ''m'') tags_page)) = js ''m''"
proof -
  have h: "getModelDetails (serve tags_page) (js ''m'') (Some (js ''x'')) =
      Inr (fst (details_of_page (serve tags_page) (js ''m'') tags_page),
           snd (details_of_page (serve tags_page) (js ''m'') tags_page))"
    by (simp add: getModelDetails_def page_of_serve)
  from details_name_is_slug[OF h] h show ?thesis by simp
qed

text \<open>
  C5. In the array each of the three operations returns, no two records share a name,
  and the first occurrence wins: the names are those met on the page, in order, each
  kept where it is met first, counted from an empty set of names at every call (the set
  is a local of the call), and the record of a name is the one built from the first
  container or link that bears the name.
\<close>

theorem distinct_names:
  "(getModelListing env options = Inr ms \<longrightarrow>
      distinct (map li_name ms) \<and>
      (\<exists>doc. page_of (fetch env (listing_url env options)) = Inr doc \<and>
         map li_name ms =
           keep_first (map fst (List.map_filter listing_candidate (containers doc))) {} \<and>
         (\<forall>r \<in> set ms. \<exists>li href.
            List.find (\<lambda>li. map_option fst (listing_candidate li) = Some (li_name r))
              (containers doc) = Some li \<and>
            listing_candidate li = Some (li_name r, href) \<and>
            listing_item env li href (li_name r) = Inr r))) \<and>
   (getModelDetails env modelName tag = Inr (d, w) \<longrightarrow>
      distinct (map var_name (det_models d)) \<and>
      (\<exists>doc. page_of (fetch env (details_url modelName tag)) = Inr doc \<and>
         map var_name (det_models d) =
           keep_first (List.map_filter (\<lambda>c. tag_of_href (href_of (self c))) (variant_links doc)) {} \<and>
         (\<forall>v \<in> set (det_models d). \<exists>c.
            List.find (\<lambda>c. tag_of_href (href_of (self c)) = Some (var_name v))
              (variant_links doc) = Some c \<and>
            v = variant_of (var_name v) c))) \<and>
   (getModelTags env modelName = Inr tags \<longrightarrow>
      distinct (map tag_name tags) \<and>
      (\<exists>doc links. page_of (fetch env (tags_url modelName)) = Inr doc \<and>
         tag_links env modelName doc = Inr links \<and>
         map tag_name tags =
           keep_first (List.map_filter (\<lambda>c. tag_of_href (href_of (self c))) links) {} \<and>
         (\<forall>t \<in> set tags. \<exists>c.
            List.find (\<lambda>c. tag_of_href (href_of (self c)) = Some (tag_name t)) links = Some c \<and>
            t = tag_record (tag_name t) c)))"
proof (intro conjI impI)
  assume a: "getModelListing env options = Inr ms"
  from getModelListing_loop[OF a] obtain doc where
    doc: "page_of (fetch env (listing_url env options)) = Inr doc"
    and l: "listing_loop env (containers doc) {} [] = Inr ms"
    by blast
  from l show "distinct (map li_name ms)"
    by (rule listing_loop_distinct) simp_all
  have n: "map li_name ms =
      keep_first (map fst (List.map_filter listing_candidate (containers doc))) {}"
    using listing_loop_names[OF l] by simp
  have f: "\<forall>r \<in> set ms. \<exists>li href.
            List.find (\<lambda>li. map_option fst (listing_candidate li) = Some (li_name r))
              (containers doc) = Some li \<and>
            listing_candidate li = Some (li_name r, href) \<and>
            listing_item env li href (li_name r) = Inr r"
    using listing_loop_first[OF l] by simp
  from doc n f show "\<exists>doc. page_of (fetch env (listing_url env options)) = Inr doc \<and>
         map li_name ms =
           keep_first (map fst (List.map_filter listing_candidate (containers doc))) {} \<and>
         (\<forall>r \<in> set ms. \<exists>li href.
            List.find (\<lambda>li. map_option fst (listing_candidate li) = Some (li_name r))
              (containers doc) = Some li \<and>
            listing_candidate li = Some (li_name r, href) \<and>
            listing_item env li href (li_name r) = Inr r)"
    by blast
next
  assume "getModelDetails env modelName tag = Inr (d, w)"
  then obtain doc where doc: "page_of (fetch env (details_url modelName tag)) = Inr doc"
    and m: "det_models d = variants_loop (variant_links doc) {} []"
    by (auto simp: getModelDetails_def details_of_page_def split: sum.splits)
  from m show "distinct (map var_name (det_models d))"
    by (simp add: variants_loop_distinct)
  have n: "map var_name (det_models d) =
      keep_first (List.map_filter (\<lambda>c. tag_of_href (href_of (self c))) (variant_links doc)) {}"
    by (simp add: m variants_loop_names)
  have f: "\<forall>v \<in> set (det_models d). \<exists>c.
            List.find (\<lambda>c. tag_of_href (href_of (self c)) = Some (var_name v))
              (variant_links doc) = Some c \<and>
            v = variant_of (var_name v) c"
    using variants_loop_first[of _ "variant_links doc" "{}" "[]"] by (simp add: m)
  from doc n f show "\<exists>doc. page_of (fetch env (details_url modelName tag)) = Inr doc \<and>
         map var_name (det_models d) =
           keep_first (List.map_filter (\<lambda>c. tag_of_href (href_of (self c))) (variant_links doc)) {} \<and>
         (\<forall>v \<in> set (det_models d). \<exists>c.
            List.find (\<lambda>c. tag_of_href (href_of (self c)) = Some (var_name v))
              (variant_links doc) = Some c \<and>
            v = variant_of (var_name v) c)"
    by blast
next
  assume a: "getModelTags env modelName = Inr tags"
  from getModelTags_links[OF a] obtain doc links where
    doc: "page_of (fetch env (tags_url modelName)) = Inr doc"
    and links: "tag_links env modelName doc = Inr links"
    and t: "tags = tags_loop links {} []"
    by blast
  from t show "distinct (map tag_name tags)"
    by (simp add: tags_loop_distinct)
  have n: "map tag_name tags =
      keep_first (List.map_filter (\<lambda>c. tag_of_href (href_of (self c))) links) {}"
    by (simp add: t tags_loop_names)
  have f: "\<forall>t \<in> set tags. \<exists>c.
            List.find (\<lambda>c. tag_of_href (href_of (self c)) = Some (tag_name t)) links = Some c \<and>
            t = tag_record (tag_name t) c"
    using tags_loop_first[of _ links "{}" "[]"] by (simp add: t)
  from doc links n f show "\<exists>doc links. page_of (fetch env (tags_url modelName)) = Inr doc \<and>
         tag_links env modelName doc = Inr links \<and>
         map tag_name tags =
           keep_first (List.map_filter (\<lambda>c. tag_of_href (href_of (self c))) links) {} \<and>
         (\<forall>t \<in> set tags. \<exists>c.
            List.find (\<lambda>c. tag_of_href (href_of (self c)) = Some (tag_name t)) links = Some c \<and>
            t = tag_record (tag_name t) c)"
    by blast
qed

theorem distinct_names_witness:
  "getModelListing (serve pair_listing) None = Inr [seven_record, pulls_record] \<and>
   distinct (map li_name [seven_record, pulls_record]) \<and>
   listing_candidate seven_item = listing_candidate thirteen_item \<and>
   li_parameters seven_record = [js ''7b''] \<and>
   getModelTags (serve twice_page) (js ''m'') = Inr [first_record] \<and>
   distinct (map tag_name [first_record]) \<and>
   tag_aliases first_record = None \<and>
   tag_aliases (tag_record (js ''x'') latest_cursor) = Some [js ''latest''] \<and>
   det_models (fst (details_of_page (serve twice_page) (js ''m'') twice_page)) = [first_variant] \<and>
   distinct (map var_name (det_models (fst (details_of_page (serve twice_page) (js ''m'') twice_page)))) \<and>
   var_size first_variant = js ''1GB'' \<and>
   var_size (variant_of (js ''x'') latest_cursor) = js ''2GB''"
proof -
  have h: "getModelDetails (serve twice_page) (js ''m'') None =
      Inr (fst (details_of_page (serve twice_page) (js ''m'') twice_page),
           snd (details_of_page (serve twice_page) (js ''m'') twice_page))"
    by (simp add: getModelDetails_def page_of_serve)
  have v: "det_models (fst (details_of_page (serve twice_page) (js ''m'') twice_page)) = [first_variant]"
    by (simp add: details_of_page_def twice_page_variants)
  have c: "listing_candidate seven_item = listing_candidate thirteen_item"
    by (simp add: seven_item_candidate thirteen_item_candidate)
  have p: "li_parameters seven_record = [js ''7b'']" "tag_aliases first_record = None"
    "var_size first_variant = js ''1GB''"
    by (simp_all add: seven_record_def first_record_def first_variant_def)
  from distinct_names[of "serve pair_listing" None "[seven_record, pulls_record]" "js ''m''" None
      "fst (details_of_page (serve pair_listing) (js ''m'') pair_listing)"
      "snd (details_of_page (serve pair_listing) (js ''m'') pair_listing)" "[]"]
    pair_listing_result
  have d1: "distinct (map li_name [seven_record, pulls_record])" by blast
  from distinct_names[of "serve twice_page" None "[]" "js ''m''" None
      "fst (details_of_page (serve twice_page) (js ''m'') twice_page)"
      "snd (details_of_page (serve twice_page) (js ''m'') twice_page)" "[first_record]"]
    twice_page_result h
  have d2: "distinct (map tag_name [first_record])"
    "distinct (map var_name (det_models (fst (details_of_page (serve twice_page) (js ''m'') twice_page))))"
    by blast+
  from pair_listing_result twice_page_result v c p d1 d2 latest_cursor_aliases latest_variant_size
  show ?thesis by blast
qed

text \<open>
  C9. A tag record carries the aliases \<^verbatim>\<open>["latest"]\<close> exactly when the name of the tag is
  not \<^verbatim>\<open>latest\<close> and the label of its own link, lower-cased, contains \<^verbatim>\<open>latest\<close>; in every
  other case the field is absent. The metadata text plays no part.
\<close>

theorem aliases_rule:
  assumes "getModelTags env modelName = Inr tags" and "t \<in> set tags"
  shows "\<exists>doc links c. page_of (fetch env (tags_url modelName)) = Inr doc \<and>
           tag_links env modelName doc = Inr links \<and>
           c \<in> set links \<and>
           tag_of_href (href_of (self c)) = Some (tag_name t) \<and>
           t = tag_record (tag_name t) c \<and>
           (tag_aliases t = Some [js ''latest''] \<longleftrightarrow>
              tag_name t \<noteq> js ''latest'' \<and>
              js_includes (toLowerCase (text_of (self c))) (js ''latest'')) \<and>
           (tag_aliases t = None \<longleftrightarrow>
              \<not> (tag_name t \<noteq> js ''latest'' \<and>
                 js_includes (toLowerCase (text_of (self c))) (js ''latest'')))"
proof -
  from getModelTags_records[OF assms] obtain doc links c where
    h: "page_of (fetch env (tags_url modelName)) = Inr doc"
       "tag_links env modelName doc = Inr links" "c \<in> set links"
       "tag_of_href (href_of (self c)) = Some (tag_name t)" "t = tag_record (tag_name t) c"
    by blast
  have "tag_aliases (tag_record n c) =
          (if n \<noteq> js ''latest'' \<and> js_includes (toLowerCase (text_of (self c))) (js ''latest'')
           then Some [js ''latest''] else None)" for n
    by (simp add: tag_record_def aliases_of_def)
  from this[of "tag_name t"] h(5) have
    "tag_aliases t =
          (if tag_name t \<noteq> js ''latest'' \<and> js_includes (toLowerCase (text_of (self c))) (js ''latest'')
           then Some [js ''latest''] else None)" by simp
  with h show ?thesis by (intro exI[of _ doc] exI[of _ links] exI[of _ c]) (simp split: if_splits)
qed

theorem aliases_rule_witness:
  "getModelTags (serve tags_page) (js ''m'') = Inr [x_record] \<and>
   tag_aliases x_record = Some [js ''latest''] \<and>
   (\<exists>doc links c. page_of (fetch (serve tags_page) (tags_url (js ''m''))) = Inr doc \<and>
           tag_links (serve tags_page) (js ''m'') doc = Inr links \<and>
           c \<in> set links \<and>
           tag_of_href (href_of (self c)) = Some (tag_name x_record) \<and>
           x_record = tag_record (tag_name x_record) c \<and>
           (tag_aliases x_record = Some [js ''latest'']) =
           (tag_name x_record \<noteq> js ''latest'' \<and>
            js_includes (toLowerCase (text_of (self c))) (js ''latest'')) \<and>
           (tag_aliases x_record = None) =
           (\<not> (tag_name x_record \<noteq> js ''latest'' \<and>
               js_includes (toLowerCase (text_of (self c))) (js ''latest''))))"
  using aliases_rule[OF tags_page_result, of x_record] tags_page_result
  by (simp add: x_record_def)

text \<open>
  C2. For every tag link, the metadata text is chosen by the three-stage cascade, the
  first stage that succeeds deciding: the text of the next sibling if it names a size
  unit; else the text of the first of up to three ancestors that names a size unit in
  fewer than 200 characters; else the text of the first of up to three following
  elements that names a size unit in fewer than 100 characters. Every record is built
  from the first link that bears its name, and its fields are read from the text the
  cascade gives for that link; when every stage fails the text is empty, digest, size
  and modifiedAt are empty and contextWindow and inputType are undefined. Every link
  that bears a name first has its record in the result.
\<close>

theorem metadata_cascade:
  assumes "getModelTags env modelName = Inr tags" and "t \<in> set tags"
  shows "(\<forall>c. tag_text c = cascade c) \<and>
         (\<exists>doc links c. page_of (fetch env (tags_url modelName)) = Inr doc \<and>
           tag_links env modelName doc = Inr links \<and>
           List.find (\<lambda>c. tag_of_href (href_of (self c)) = Some (tag_name t)) links = Some c \<and>
           c \<in> set links \<and>
           tag_of_href (href_of (self c)) = Some (tag_name t) \<and>
           t = tag_record (tag_name t) c \<and>
           tag_size t = size_of (cascade c) \<and>
           tag_digest t = digest_of (cascade c) \<and>
           tag_modifiedAt t = modifiedAt_of (cascade c) \<and>
           tag_contextWindow t = contextWindow_of (cascade c) \<and>
           tag_inputType t = inputType_of (cascade c) \<and>
           (stage_one c = None \<and> stage_two c = None \<and> stage_three c = None \<longrightarrow>
              cascade c = [] \<and> tag_digest t = [] \<and> tag_size t = [] \<and> tag_modifiedAt t = [] \<and>
              tag_contextWindow t = None \<and> tag_inputType t = None) \<and>
           (\<forall>c' n. List.find (\<lambda>c. tag_of_href (href_of (self c)) = Some n) links = Some c' \<longrightarrow>
              tag_record n c' \<in> set tags))"
proof -
  from getModelTags_records[OF assms] obtain doc links c where
    h: "page_of (fetch env (tags_url modelName)) = Inr doc"
       "tag_links env modelName doc = Inr links"
       "List.find (\<lambda>c. tag_of_href (href_of (self c)) = Some (tag_name t)) links = Some c"
       "c \<in> set links" "tag_of_href (href_of (self c)) = Some (tag_name t)"
       "t = tag_record (tag_name t) c"
    by blast
  from getModelTags_links[OF assms(1)] h(1,2) have tags: "tags = tags_loop links {} []"
    by auto
  have f: "tag_size t = size_of (cascade c)" "tag_digest t = digest_of (cascade c)"
    "tag_modifiedAt t = modifiedAt_of (cascade c)"
    "tag_contextWindow t = contextWindow_of (cascade c)"
    "tag_inputType t = inputType_of (cascade c)"
    by (subst h(6), simp add: tag_record_def tag_text_cascade)+
  have e: "stage_one c = None \<and> stage_two c = None \<and> stage_three c = None \<longrightarrow>
              cascade c = [] \<and> tag_digest t = [] \<and> tag_size t = [] \<and> tag_modifiedAt t = [] \<and>
              tag_contextWindow t = None \<and> tag_inputType t = None"
    using f empty_text_fields by (simp add: cascade_def)
  have k: "\<forall>c' n. List.find (\<lambda>c. tag_of_href (href_of (self c)) = Some n) links = Some c' \<longrightarrow>
              tag_record n c' \<in> set tags"
    using tags_loop_complete[of _ links _ "{}" "[]"] by (simp add: tags)
  have a: "\<forall>c. tag_text c = cascade c" by (simp add: tag_text_cascade)
  show ?thesis
    by (intro conjI exI[of _ doc] exI[of _ links] exI[of _ c] a h f e k)
qed

theorem metadata_cascade_witness:
  "getModelTags (serve cascade_page) (js ''m'') =
     Inr [tag_record (js ''a'') sibling_cursor, tag_record (js ''b'') parent_cursor,
          tag_record (js ''c'') scan_cursor, tag_record (js ''d'') bare_cursor] \<and>
   stage_one sibling_cursor = Some (js ''1GB'') \<and>
   tag_size (tag_record (js ''a'') sibling_cursor) = js ''1GB'' \<and>
   stage_one parent_cursor = None \<and> stage_two parent_cursor = Some (js ''b 2GB'') \<and>
   tag_size (tag_record (js ''b'') parent_cursor) = js ''2GB'' \<and>
   stage_one scan_cursor = None \<and> stage_two scan_cursor = None \<and>
   stage_three scan_cursor = Some (js ''3GB'') \<and>
   tag_text scan_cursor = js ''3GB'' \<and>
   tag_size (tag_record (js ''c'') scan_cursor) = js ''3GB'' \<and>
   stage_one bare_cursor = None \<and> stage_two bare_cursor = None \<and> stage_three bare_cursor = None \<and>
   tag_size (tag_record (js ''d'') bare_cursor) = [] \<and>
   tag_digest (tag_record (js ''d'') bare_cursor) = [] \<and>
   tag_contextWindow (tag_record (js ''d'') bare_cursor) = None"
proof -
  let ?links = "[sibling_cursor, parent_cursor, scan_cursor, bare_cursor]"
  have page: "page_of (fetch (serve cascade_page) (tags_url (js ''m''))) = Inr cascade_page"
    by (rule page_of_serve)
  have found: "List.find (\<lambda>c. tag_of_href (href_of (self c)) = Some n) ?links = Some c \<Longrightarrow>
      (n = js ''a'' \<and> c = sibling_cursor) \<or> (n = js ''b'' \<and> c = parent_cursor) \<or>
      (n = js ''c'' \<and> c = scan_cursor) \<or> (n = js ''d'' \<and> c = bare_cursor)" for n c
    by (auto simp: cascade_names split: if_splits)
  have rec: "tag_size (tag_record n c) = size_of (cascade c) \<and>
      (stage_one c = None \<and> stage_two c = None \<and> stage_three c = None \<longrightarrow>
         tag_size (tag_record n c) = [] \<and> tag_digest (tag_record n c) = [] \<and>
         tag_contextWindow (tag_record n c) = None)"
    if "tag_record n c \<in> set [tag_record (js ''a'') sibling_cursor,
          tag_record (js ''b'') parent_cursor, tag_record (js ''c'') scan_cursor,
          tag_record (js ''d'') bare_cursor]"
      and "(n = js ''a'' \<and> c = sibling_cursor) \<or> (n = js ''b'' \<and> c = parent_cursor) \<or>
      (n = js ''c'' \<and> c = scan_cursor) \<or> (n = js ''d'' \<and> c = bare_cursor)" for n c
  proof -
    have nm: "tag_name (tag_record n c) = n" by (simp add: tag_record_def)
    from metadata_cascade[OF cascade_page_result that(1)] obtain doc links c' where
      d: "page_of (fetch (serve cascade_page) (tags_url (js ''m''))) = Inr doc"
        "tag_links (serve cascade_page) (js ''m'') doc = Inr links"
        "List.find (\<lambda>c. tag_of_href (href_of (self c)) = Some n) links = Some c'"
        "tag_size (tag_record n c) = size_of (cascade c')"
        "stage_one c' = None \<and> stage_two c' = None \<and> stage_three c' = None \<longrightarrow>
           tag_size (tag_record n c) = [] \<and> tag_digest (tag_record n c) = [] \<and>
           tag_contextWindow (tag_record n c) = None"
      unfolding nm by blast
    from d(1) page have "doc = cascade_page" by simp
    with d(2) have "links = ?links" by (simp add: cascade_page_links)
    with d(3) have "List.find (\<lambda>c. tag_of_href (href_of (self c)) = Some n) ?links = Some c'"
      by simp
    from found[OF this] that(2) have "c' = c"
      by (auto simp: js_def)
    with d(4,5) show ?thesis by simp
  qed
  have ra: "tag_size (tag_record (js ''a'') sibling_cursor) = js ''1GB''"
    using rec[of "js ''a''" sibling_cursor]
    by (simp add: cascade_def sibling_stages cascade_sizes)
  have rb: "tag_size (tag_record (js ''b'') parent_cursor) = js ''2GB''"
    using rec[of "js ''b''" parent_cursor]
    by (simp add: cascade_def parent_stages cascade_sizes)
  have rc: "tag_size (tag_record (js ''c'') scan_cursor) = js ''3GB''"
    using rec[of "js ''c''" scan_cursor]
    by (simp add: cascade_def scan_stages cascade_sizes)
  have rd: "tag_size (tag_record (js ''d'') bare_cursor) = [] \<and>
      tag_digest (tag_record (js ''d'') bare_cursor) = [] \<and>
      tag_contextWindow (tag_record (js ''d'') bare_cursor) = None"
  proof -
    have "tag_record (js ''d'') bare_cursor \<in> set [tag_record (js ''a'') sibling_cursor,
          tag_record (js ''b'') parent_cursor, tag_record (js ''c'') scan_cursor,
          tag_record (js ''d'') bare_cursor]"
      by simp
    from rec[OF this] bare_stages show ?thesis by blast
  qed
  from cascade_page_result sibling_stages parent_stages scan_stages bare_stages scan_cursor_text
    ra rb rc rd
  show ?thesis by simp
qed

text \<open>
  C6. In a record \<^verbatim>\<open>getModelDetails\<close> returns, readmeMarkdown is never present with
  readmeHtml absent. When the Markdown converter throws on the HTML of the readme, the
  operation still returns: one warning is printed, readmeMarkdown is undefined and
  readmeHtml holds the HTML.
\<close>

theorem readme_policy:
  "(getModelDetails env modelName tag = Inr (d, w) \<longrightarrow>
      (det_readmeMarkdown d \<noteq> None \<longrightarrow> det_readmeHtml d \<noteq> None)) \<and>
   (page_of (fetch env (details_url modelName tag)) = Inr doc \<and>
    filter (has_id (js ''display'')) (elements_in doc) = el # els \<and>
    trim (inner_html env el) \<noteq> [] \<and>
    turndown env (trim (inner_html env el)) = Inl e \<longrightarrow>
      (\<exists>d'. getModelDetails env modelName tag =
              Inr (d', [js ''Failed to convert readme to markdown: '' @ e]) \<and>
            det_readmeMarkdown d' = None \<and>
            det_readmeHtml d' = Some (trim (inner_html env el))))"
proof (intro conjI impI)
  assume "getModelDetails env modelName tag = Inr (d, w)" and "det_readmeMarkdown d \<noteq> None"
  then show "det_readmeHtml d \<noteq> None"
    by (auto simp: getModelDetails_def details_of_page_def readme_of_def
        split: sum.splits list.splits if_splits)
next
  assume "page_of (fetch env (details_url modelName tag)) = Inr doc \<and>
    filter (has_id (js ''display'')) (elements_in doc) = el # els \<and>
    trim (inner_html env el) \<noteq> [] \<and>
    turndown env (trim (inner_html env el)) = Inl e"
  then show "\<exists>d'. getModelDetails env modelName tag =
              Inr (d', [js ''Failed to convert readme to markdown: '' @ e]) \<and>
            det_readmeMarkdown d' = None \<and>
            det_readmeHtml d' = Some (trim (inner_html env el))"
    by (simp add: getModelDetails_def details_of_page_def readme_of_def)
qed

theorem readme_policy_witness:
  "\<exists>d'. getModelDetails failing_converter (js ''m'') None =
           Inr (d', [js ''Failed to convert readme to markdown: '' @ js ''Error: boom'']) \<and>
        det_readmeMarkdown d' = None \<and>
        det_readmeHtml d' = Some (js ''hi'')"
  using readme_policy[of failing_converter "js ''m''" None
      "fst (details_of_page failing_converter (js ''m'') readme_page)"
      "snd (details_of_page failing_converter (js ''m'') readme_page)"
      readme_page readme_block "[]" "js ''Error: boom''"]
    failing_converter_page readme_page_blocks failing_converter_html failing_converter_throws
  by (simp add: js_def)

text \<open>
  C8, as stated: a container is rejected only if it holds no link of the catalog-entry
  pattern or the slug of that link was seen, so a container that holds such a link
  yields a record. The item below holds the link \<^verbatim>\<open>/library/foo\<close> after a link to a tag,
  and yields none.
\<close>

theorem container_with_catalog_link_rejected:
  "(\<exists>l \<in> set (descendants shadowed_item). catalog_entry_path (href_of l)) \<and>
   getModelListing (serve [shadowed_item]) None = Inr []"
proof -
  have "catalog_entry_path (js ''/library/foo'')"
    by (simp add: catalog_entry_path_def js_def)
  then have "\<exists>l \<in> set (descendants shadowed_item). catalog_entry_path (href_of l)"
    by (simp add: shadowed_item_links href_of_def)
  with shadowed_page_result show ?thesis by simp
qed

text \<open>
  C8, amended. The extractor takes the first link below a container whose \<^verbatim>\<open>href\<close> starts
  with \<^verbatim>\<open>/library/\<close>, whatever follows the prefix. The container is passed over when it
  has no such link, when the \<^verbatim>\<open>href\<close> of that first link contains \<^verbatim>\<open>/tags\<close> or a colon
  anywhere, or when its slug was seen in an earlier container. In a call that returns,
  the names of the listing are the slugs of the containers not passed over, in document
  order, each at its first occurrence, and the record of a name is the one built from
  the first container with that slug.
\<close>

theorem listing_containers:
  assumes "getModelListing env options = Inr ms"
  shows "\<exists>doc. page_of (fetch env (listing_url env options)) = Inr doc \<and>
           map li_name ms =
             keep_first (map fst (List.map_filter listing_candidate (containers doc))) {} \<and>
           (\<forall>r \<in> set ms. \<exists>li href.
              List.find (\<lambda>li. map_option fst (listing_candidate li) = Some (li_name r))
                (containers doc) = Some li \<and>
              listing_candidate li = Some (li_name r, href) \<and>
              listing_item env li href (li_name r) = Inr r) \<and>
           (\<forall>li slug href. listing_candidate li = Some (slug, href) \<longleftrightarrow>
              (\<exists>link. List.find (\<lambda>n. has_tag (js ''a'') n \<and> href_starts (js ''/library/'') n)
                         (descendants li) = Some link \<and>
                      attr (js ''href'') link = Some href \<and>
                      \<not> js_includes href (js ''/tags'') \<and> \<not> js_includes href (js '':'') \<and>
                      slug = drop 9 href))"
proof -
  from getModelListing_loop[OF assms] obtain doc where
    doc: "page_of (fetch env (listing_url env options)) = Inr doc"
    and l: "listing_loop env (containers doc) {} [] = Inr ms"
    by blast
  have n: "map li_name ms =
      keep_first (map fst (List.map_filter listing_candidate (containers doc))) {}"
    using listing_loop_names[OF l] by simp
  have f: "\<forall>r \<in> set ms. \<exists>li href.
            List.find (\<lambda>li. map_option fst (listing_candidate li) = Some (li_name r))
              (containers doc) = Some li \<and>
            listing_candidate li = Some (li_name r, href) \<and>
            listing_item env li href (li_name r) = Inr r"
    using listing_loop_first[OF l] by simp
  have c: "\<forall>li slug href. listing_candidate li = Some (slug, href) \<longleftrightarrow>
              (\<exists>link. List.find (\<lambda>n. has_tag (js ''a'') n \<and> href_starts (js ''/library/'') n)
                         (descendants li) = Some link \<and>
                      attr (js ''href'') link = Some href \<and>
                      \<not> js_includes href (js ''/tags'') \<and> \<not> js_includes href (js '':'') \<and>
                      slug = drop 9 href)"
    using listing_candidate_iff by blast
  show ?thesis by (intro exI[of _ doc] conjI doc n f c)
qed

theorem listing_containers_witness:
  "getModelListing lookahead_host None = Inr [lookahead_record] \<and>
   li_name lookahead_record = js ''a(?!b)'' \<and>
   li_description lookahead_record = js ''desc'' \<and>
   RegExp (description_regex_source (js ''a(?!b)'')) = Beyond \<and>
   (\<exists>doc. page_of (fetch lookahead_host (listing_url lookahead_host None)) = Inr doc \<and>
           map li_name [lookahead_record] =
             keep_first (map fst (List.map_filter listing_candidate (containers doc))) {}) \<and>
   getModelListing (serve listing_page) None = Inr [model_record] \<and>
   (\<exists>doc. page_of (fetch (serve listing_page) (listing_url (serve listing_page) None)) = Inr doc \<and>
           map li_name [model_record] =
             keep_first (map fst (List.map_filter listing_candidate (containers doc))) {})"
proof -
  from listing_containers[OF lookahead_result] have a:
    "\<exists>doc. page_of (fetch lookahead_host (listing_url lookahead_host None)) = Inr doc \<and>
           map li_name [lookahead_record] =
             keep_first (map fst (List.map_filter listing_candidate (containers doc))) {}"
    by blast
  from listing_containers[OF listing_page_result] have b:
    "\<exists>doc. page_of (fetch (serve listing_page) (listing_url (serve listing_page) None)) = Inr doc \<and>
           map li_name [model_record] =
             keep_first (map fst (List.map_filter listing_candidate (containers doc))) {}"
    by blast
  have n: "li_name lookahead_record = js ''a(?!b)''" "li_description lookahead_record = js ''desc''"
    by (simp_all add: lookahead_record_def)
  from a b n lookahead_result listing_page_result lookahead_pattern show ?thesis by blast
qed

text \<open>
  C1, as stated: for Scenario A the listing is one record with the description
  \<^verbatim>\<open>Test description\<close>. No such record is returned.
\<close>

theorem scenario_a_description_differs:
  "\<not> (\<exists>r. getModelListing (serve scenario_page) None = Inr [r] \<and>
          li_name r = js ''test-model'' \<and> li_description r = js ''Test description'' \<and>
          li_parameters r = [js ''7b'', js ''13b''] \<and> li_pulls r = js ''100K'' \<and>
          li_tags r = Finite 5 \<and> li_lastUpdated r = js ''2 hours ago'')"
proof -
  have "li_description scenario_record \<noteq> js ''Test description''"
    by (simp add: scenario_record_def js_def)
  then show ?thesis using scenario_result by auto
qed

text \<open>
  C1, amended. For Scenario A the listing is exactly one record: name \<^verbatim>\<open>test-model\<close>,
  parameters \<^verbatim>\<open>7b\<close> and \<^verbatim>\<open>13b\<close>, pulls \<^verbatim>\<open>100K\<close>, tags 5, lastUpdated \<^verbatim>\<open>2 hours ago\<close>, and
  as description the text after the name up to the end of the line, which here is the
  whole rest of the entry.
\<close>

theorem scenario_a_record:
  "getModelListing (serve scenario_page) None =
     Inr [\<lparr>li_name = js ''test-model'',
           li_description = js ''Test description Parameters: 7b, 13b 100K Pulls 5 Tags Updated 2 hours ago'',
           li_parameters = [js ''7b'', js ''13b''],
           li_pulls = js ''100K'',
           li_tags = Finite 5,
           li_lastUpdated = js ''2 hours ago'',
           li_url = js ''https://ollama.com/library/test-model'',
           li_capabilities = None\<rparr>]"
  using scenario_result by (simp add: scenario_record_def)

text \<open>
  C3. An operation throws only when the transport fails or answers with a status that
  is not a success, and never because of what a page that was fetched contains. The
  listing breaks this: on the page below, fetched with success, the slug is spliced
  unescaped into a pattern that does not compile, and the operation throws.
\<close>

theorem listing_throws_on_parsed_page:
  "page_of (fetch (serve [broken_item]) (listing_url (serve [broken_item]) None)) = Inr [broken_item] \<and>
   getModelListing (serve [broken_item]) None =
     Inl (FailedToFetch ModelListingOp (RegExpSyntaxError (description_regex_source (js ''(''))))"
  by (simp add: getModelListing_def page_of_serve listing_of_page_def broken_page_items
      broken_item_candidate broken_item_throws)

text \<open>
  C4. The digest of every tag record is either empty or exactly twelve lower-case
  hexadecimal characters: the first standalone such token of the metadata text of the
  record's own link, never part of a longer run of word characters, and empty exactly
  when the text has no such token.
\<close>

theorem digest_shape:
  assumes "getModelTags env modelName = Inr tags" and "t \<in> set tags"
  shows "(tag_digest t = [] \<or> (length (tag_digest t) = 12 \<and> list_all is_lower_hex (tag_digest t))) \<and>
         (\<exists>doc links c. page_of (fetch env (tags_url modelName)) = Inr doc \<and>
            tag_links env modelName doc = Inr links \<and>
            c \<in> set links \<and>
            tag_of_href (href_of (self c)) = Some (tag_name t) \<and>
            t = tag_record (tag_name t) c \<and>
            tag_digest t = digest_of (tag_text c) \<and>
            ((\<exists>pre post. tag_text c = pre @ tag_digest t @ post \<and>
                 standalone_token pre (tag_digest t) post \<and>
                 (\<forall>pre' tok' post'. tag_text c = pre' @ tok' @ post' \<and>
                    standalone_token pre' tok' post' \<longrightarrow> length pre \<le> length pre')) \<or>
             (tag_digest t = [] \<and>
              \<not> (\<exists>pre tok post. tag_text c = pre @ tok @ post \<and> standalone_token pre tok post))))"
proof -
  from getModelTags_records[OF assms] obtain doc links c where
    h: "page_of (fetch env (tags_url modelName)) = Inr doc"
       "tag_links env modelName doc = Inr links" "c \<in> set links"
       "tag_of_href (href_of (self c)) = Some (tag_name t)"
       "t = tag_record (tag_name t) c"
    by blast
  have d: "tag_digest t = digest_of (tag_text c)"
    by (subst h(5)) (simp add: tag_record_def)
  note sp = digest_of_spec[of "tag_text c", folded d]
  have shape: "tag_digest t = [] \<or> (length (tag_digest t) = 12 \<and> list_all is_lower_hex (tag_digest t))"
    using sp by (auto simp: standalone_token_def)
  show ?thesis
  proof (intro conjI exI[of _ doc] exI[of _ links] exI[of _ c])
    show "tag_digest t = [] \<or> (length (tag_digest t) = 12 \<and> list_all is_lower_hex (tag_digest t))"
      by (rule shape)
  next
    show "page_of (fetch env (tags_url modelName)) = Inr doc" by (rule h(1))
  next
    show "tag_links env modelName doc = Inr links" by (rule h(2))
  next
    show "c \<in> set links" by (rule h(3))
  next
    show "tag_of_href (href_of (self c)) = Some (tag_name t)" by (rule h(4))
  next
    show "t = tag_record (tag_name t) c" by (rule h(5))
  next
    show "tag_digest t = digest_of (tag_text c)" by (rule d)
  next
    show "(\<exists>pre post. tag_text c = pre @ tag_digest t @ post \<and>
                 standalone_token pre (tag_digest t) post \<and>
                 (\<forall>pre' tok' post'. tag_text c = pre' @ tok' @ post' \<and>
                    standalone_token pre' tok' post' \<longrightarrow> length pre \<le> length pre')) \<or>
             (tag_digest t = [] \<and>
              \<not> (\<exists>pre tok post. tag_text c = pre @ tok @ post \<and> standalone_token pre tok post))"
      by (rule sp)
  qed
qed

theorem digest_shape_witness:
  "getModelTags (serve digest_page) (js ''m'') = Inr [digest_record] \<and>
   tag_digest digest_record = js ''0123456789ab'' \<and>
   (length (tag_digest digest_record) = 12 \<and> list_all is_lower_hex (tag_digest digest_record))"
proof -
  have ne: "tag_digest digest_record \<noteq> []"
    by (simp add: digest_record_def js_def)
  from digest_shape[OF digest_page_result, of digest_record] ne
  have "length (tag_digest digest_record) = 12 \<and> list_all is_lower_hex (tag_digest digest_record)"
    by simp
  then show ?thesis using digest_page_result by (simp add: digest_record_def)
qed



end
